theory Spec2Isabelle
  imports Complex_Main "HOL-Library.Multiset" "HOL-Library.Signed_Division"
begin

section \<open>Domain model (meeting-scheduler-code.go, lines 13-76)\<close>

text \<open>
  A \<open>time.Time\<close> read from JSON or from the wall clock is modelled by its number of
  nanoseconds since a fixed epoch; a \<open>time.Duration\<close> is an \<open>int64\<close> count of
  nanoseconds.
\<close>

type_synonym Time = int
type_synonym Duration = int

record Event =
  ID :: string
  Title :: string
  Description :: string
  OrganizerID :: string
  RequiredDuration :: int
  Status :: string
  CreatedAt :: Time
  UpdatedAt :: Time

record TimeSlot =
  ID :: string
  EventID :: string
  StartTime :: Time
  EndTime :: Time
  CreatedAt :: Time
  UpdatedAt :: Time

record UserAvailability =
  ID :: string
  UserID :: string
  EventID :: string
  TimeSlotID :: string
  Status :: string
  CreatedAt :: Time
  UpdatedAt :: Time

text \<open>
  \<open>float64\<close>: a finite value is the real number it stands for, the three special values
  of IEEE 754 are kept, so that a division by zero is visible in a result. Every
  conversion and operation rounds its exact result to the nearest binary64 number, see
  \<open>round64\<close> below.
\<close>

datatype float64 = Finite real | PosInf | NegInf | NaN

record Recommendation =
  TimeSlot :: TimeSlot
  AvailableUsers :: "string list"
  UnavailableUsers :: "string list"
  AvailabilityPercentage :: float64

record CreateEventRequest =
  Title :: string
  Description :: string
  OrganizerID :: string
  RequiredDuration :: int

record UserAvailabilityRequest =
  TimeSlotID :: string
  Status :: string

text \<open>The three process-wide maps of lines 74-76, keyed by identifier.\<close>

record store =
  events :: "string \<rightharpoonup> Event"
  timeSlots :: "string \<rightharpoonup> TimeSlot"
  userAvailability :: "string \<rightharpoonup> UserAvailability"

text \<open>
  A handler answers with an error status (404 with its message, 400 from the binder) or
  with the JSON body of a success.
\<close>

datatype error = NotFound string | BadRequest

section \<open>Library behaviour the handlers rely on\<close>

text \<open>
  \<open>for k, v := range m\<close> yields every entry of the map once, in an order Go leaves
  unspecified and that may differ from one loop to the next. The order is an input of
  the model: \<open>ranges m kvs\<close> says that \<open>kvs\<close> is one of the orders in which
  \<open>range m\<close> may yield the entries of \<open>m\<close>.
\<close>

definition ranges :: "('k \<rightharpoonup> 'v) \<Rightarrow> ('k \<times> 'v) list \<Rightarrow> bool" where
  "ranges m kvs \<longleftrightarrow> distinct (map fst kvs) \<and> map_of kvs = m"

text \<open>The same for a \<open>map[string]bool\<close> used as a set of keys.\<close>

definition rangesKeys :: "'k set \<Rightarrow> 'k list \<Rightarrow> bool" where
  "rangesKeys s ks \<longleftrightarrow> distinct ks \<and> set ks = s"

definition minDuration :: Duration where
  "minDuration = - (2 ^ 63)"

definition maxDuration :: Duration where
  "maxDuration = 2 ^ 63 - 1"

text \<open>\<open>t.Sub(u)\<close>: the difference, saturated at the ends of \<open>int64\<close>.\<close>

definition Sub :: "Time \<Rightarrow> Time \<Rightarrow> Duration" where
  "Sub t u =
     (let d = t - u in
      if minDuration \<le> d \<and> d \<le> maxDuration then d
      else if t < u then minDuration
      else maxDuration)"

definition Minute :: Duration where
  "Minute = 60 * 1000000000"

text \<open>
  Rounding to binary64, to nearest with ties to even, as the conversions and operations
  of \<open>float64\<close> do. \<open>significand x\<close> is \<open>x\<close> scaled by the power of two that
  brings it between 2^52 and 2^53; it is rounded to an integer and scaled back. The
  exponent range is not bounded: the handlers convert the 64-bit integers of the program,
  divide them by non-zero such integers or by 6e10, add and multiply by 100, and each of
  these results is zero or lies in the range of the normal numbers of binary64, which
  starts at 2^-1022 and ends below 2^1024, where this rounding is the one of IEEE 754.
  The two zeros are one value.
\<close>

function scaleDown :: "real \<Rightarrow> real" where
  "scaleDown m = (if 2 ^ 53 \<le> m then scaleDown (m / 2) else m)"
  by pat_completeness auto
termination
proof (relation "measure (\<lambda>m. nat \<lfloor>m\<rfloor>)")
  show "wf (measure (\<lambda>m::real. nat \<lfloor>m\<rfloor>))" by simp
next
  fix m :: real
  assume a: "2 ^ 53 \<le> m"
  then have "m / 2 \<le> m - 1" by simp
  then have "\<lfloor>m / 2\<rfloor> \<le> \<lfloor>m - 1\<rfloor>" by (rule floor_mono)
  then have "\<lfloor>m / 2\<rfloor> < \<lfloor>m\<rfloor>" by simp
  moreover have "0 < \<lfloor>m\<rfloor>" using a by simp
  ultimately show "(m / 2, m) \<in> measure (\<lambda>m. nat \<lfloor>m\<rfloor>)" by simp
qed

declare scaleDown.simps [simp del]

function scaleUp :: "real \<Rightarrow> real" where
  "scaleUp m = (if 0 < m \<and> m < 2 ^ 52 then scaleUp (m * 2) else m)"
  by pat_completeness auto
termination
proof (relation "measure (\<lambda>m. nat \<lfloor>2 ^ 52 / m\<rfloor>)")
  show "wf (measure (\<lambda>m::real. nat \<lfloor>2 ^ 52 / m\<rfloor>))" by simp
next
  fix m :: real
  assume a: "0 < m \<and> m < 2 ^ 52"
  define y where "y = 2 ^ 52 / m"
  have y: "1 \<le> y" using a by (simp add: y_def)
  have "\<lfloor>y / 2\<rfloor> < \<lfloor>y\<rfloor>"
  proof (cases "y < 2")
    case True
    then have "\<lfloor>y / 2\<rfloor> = 0" using y by (simp add: floor_eq_iff)
    moreover have "1 \<le> \<lfloor>y\<rfloor>" using y by simp
    ultimately show ?thesis by simp
  next
    case False
    then have "y / 2 \<le> y - 1" by simp
    then have "\<lfloor>y / 2\<rfloor> \<le> \<lfloor>y - 1\<rfloor>" by (rule floor_mono)
    then show ?thesis by simp
  qed
  moreover have "2 ^ 52 / (m * 2) = y / 2" by (simp add: y_def)
  moreover have "0 < \<lfloor>y\<rfloor>" using y by simp
  ultimately show "(m * 2, m) \<in> measure (\<lambda>m. nat \<lfloor>2 ^ 52 / m\<rfloor>)"
    by (simp add: y_def)
qed

declare scaleUp.simps [simp del]

definition significand :: "real \<Rightarrow> real" where
  "significand x = scaleUp (scaleDown x)"

definition roundEven :: "real \<Rightarrow> int" where
  "roundEven m =
     (let f = \<lfloor>m\<rfloor>; r = m - real_of_int f in
      if r < 1 / 2 then f
      else if 1 / 2 < r then f + 1
      else if even f then f else f + 1)"

definition round64 :: "real \<Rightarrow> real" where
  "round64 x =
     (if x = 0 then 0
      else let m = significand \<bar>x\<bar> in real_of_int (roundEven m) * x / m)"

text \<open>\<open>float64(n)\<close> for an integer \<open>n\<close>.\<close>

definition float64_of_int :: "int \<Rightarrow> float64" where
  "float64_of_int n = Finite (round64 (real_of_int n))"

text \<open>\<open>x < y\<close> on \<open>float64\<close>: false as soon as one side is NaN.\<close>

fun f_less :: "float64 \<Rightarrow> float64 \<Rightarrow> bool" where
  "f_less NaN _ = False"
| "f_less _ NaN = False"
| "f_less (Finite a) (Finite b) = (a < b)"
| "f_less _ NegInf = False"
| "f_less NegInf _ = True"
| "f_less PosInf _ = False"
| "f_less (Finite a) PosInf = True"

text \<open>
  \<open>x / y\<close> on \<open>float64\<close> does not panic: a zero divisor gives NaN or an infinity.
  Only the cases the handlers can reach are distinguished; every other one is NaN.
\<close>

fun f_div :: "float64 \<Rightarrow> float64 \<Rightarrow> float64" where
  "f_div (Finite a) (Finite b) =
     (if b = 0 then (if a = 0 then NaN else if 0 < a then PosInf else NegInf)
      else Finite (round64 (a / b)))"
| "f_div _ _ = NaN"

text \<open>\<open>x + y\<close>, with the same restriction to the cases the handlers can reach.\<close>

fun f_add :: "float64 \<Rightarrow> float64 \<Rightarrow> float64" where
  "f_add (Finite a) (Finite b) = Finite (round64 (a + b))"
| "f_add _ _ = NaN"

text \<open>\<open>x * 100\<close>.\<close>

fun f_times100 :: "float64 \<Rightarrow> float64" where
  "f_times100 (Finite a) = Finite (round64 (a * 100))"
| "f_times100 x = x"

text \<open>
  \<open>d.Minutes()\<close>: \<open>float64(min) + float64(nsec)/(60*1e9)\<close> for the whole minutes
  \<open>min\<close> and the remaining nanoseconds \<open>nsec\<close> of \<open>d\<close>; Go's \<open>/\<close> and \<open>%\<close> on integers
  truncate towards zero, and the constant 6e10 is a binary64 number.
\<close>

definition Minutes :: "Duration \<Rightarrow> float64" where
  "Minutes d =
     (let min = d sdiv Minute; nsec = d smod Minute in
      f_add (float64_of_int min) (f_div (float64_of_int nsec) (Finite (60 * 1000000000))))"

text \<open>
  \<open>c.ShouldBindJSON(&req)\<close>: the body either fails to decode or decodes to a request
  value; the \<open>binding\<close> tags of the request type are then validated: \<open>required\<close>
  rejects the zero value of the field, \<open>oneof\<close> anything but the listed words.
\<close>

datatype 'a body = Malformed | Decoded 'a

definition bindCreateEventRequest :: "CreateEventRequest body \<Rightarrow> error + CreateEventRequest" where
  "bindCreateEventRequest b =
     (case b of
        Malformed \<Rightarrow> Inl BadRequest
      | Decoded req \<Rightarrow>
          if CreateEventRequest.Title req = [] \<or> CreateEventRequest.OrganizerID req = []
             \<or> CreateEventRequest.RequiredDuration req = 0
          then Inl BadRequest else Inr req)"

definition bindUserAvailabilityRequest ::
  "UserAvailabilityRequest body \<Rightarrow> error + UserAvailabilityRequest" where
  "bindUserAvailabilityRequest b =
     (case b of
        Malformed \<Rightarrow> Inl BadRequest
      | Decoded req \<Rightarrow>
          if UserAvailabilityRequest.TimeSlotID req = []
             \<or> UserAvailabilityRequest.Status req = []
             \<or> (UserAvailabilityRequest.Status req \<noteq> ''available''
                 \<and> UserAvailabilityRequest.Status req \<noteq> ''unavailable'')
          then Inl BadRequest else Inr req)"

section \<open>Event and availability handlers\<close>

text \<open>
  \<open>updateEvent\<close> (lines 151-174). \<open>now\<close> is the value of \<open>time.Now()\<close>. The handler
  returns its response and the store it leaves behind.
\<close>

definition updateEvent ::
  "store \<Rightarrow> string \<Rightarrow> CreateEventRequest body \<Rightarrow> Time \<Rightarrow> (error + Event) \<times> store" where
  "updateEvent st eventID b now =
     (case events st eventID of
        None \<Rightarrow> (Inl (NotFound ''Event not found''), st)
      | Some stored \<Rightarrow>
          (case bindCreateEventRequest b of
             Inl err \<Rightarrow> (Inl err, st)
           | Inr req \<Rightarrow>
               let event = stored
                     \<lparr>Event.Title := CreateEventRequest.Title req,
                      Event.Description := CreateEventRequest.Description req,
                      Event.OrganizerID := CreateEventRequest.OrganizerID req,
                      Event.RequiredDuration := CreateEventRequest.RequiredDuration req,
                      Event.UpdatedAt := now\<rparr>
               in (Inr event, st\<lparr>events := (events st)(eventID \<mapsto> event)\<rparr>)))"

text \<open>
  \<open>createUserAvailability\<close> (lines 275-310). \<open>newID\<close> is the string of \<open>uuid.New()\<close>,
  \<open>now\<close> the value of \<open>time.Now()\<close>.
\<close>

definition createUserAvailability ::
  "store \<Rightarrow> string \<Rightarrow> string \<Rightarrow> UserAvailabilityRequest body \<Rightarrow> string \<Rightarrow> Time
     \<Rightarrow> (error + UserAvailability) \<times> store" where
  "createUserAvailability st eventID userID b newID now =
     (case events st eventID of
        None \<Rightarrow> (Inl (NotFound ''Event not found''), st)
      | Some _ \<Rightarrow>
          (case bindUserAvailabilityRequest b of
             Inl err \<Rightarrow> (Inl err, st)
           | Inr req \<Rightarrow>
               (case timeSlots st (UserAvailabilityRequest.TimeSlotID req) of
                  None \<Rightarrow> (Inl (NotFound ''Time slot not found''), st)
                | Some _ \<Rightarrow>
                    let availability =
                          \<lparr>UserAvailability.ID = newID,
                           UserID = userID,
                           EventID = eventID,
                           TimeSlotID = UserAvailabilityRequest.TimeSlotID req,
                           Status = UserAvailabilityRequest.Status req,
                           CreatedAt = now,
                           UpdatedAt = now\<rparr>
                    in (Inr availability,
                        st\<lparr>userAvailability :=
                             (userAvailability st)(UserAvailability.ID availability \<mapsto> availability)\<rparr>))))"

section \<open>The recommendation handler (lines 388-476)\<close>

text \<open>Lines 397-402: the slots of the event, in the order the map yields them.\<close>

fun eventSlotsOf :: "string \<Rightarrow> TimeSlot list \<Rightarrow> TimeSlot list \<Rightarrow> TimeSlot list" where
  "eventSlotsOf eventID [] eventSlots = eventSlots"
| "eventSlotsOf eventID (slot # rest) eventSlots =
     eventSlotsOf eventID rest
       (if TimeSlot.EventID slot = eventID then eventSlots @ [slot] else eventSlots)"

text \<open>Lines 410-415: the set of users with a record for the event.\<close>

fun collectUsers :: "string \<Rightarrow> UserAvailability list \<Rightarrow> string set \<Rightarrow> string set" where
  "collectUsers eventID [] uniqueUsers = uniqueUsers"
| "collectUsers eventID (avail # rest) uniqueUsers =
     collectUsers eventID rest
       (if UserAvailability.EventID avail = eventID
        then insert (UserAvailability.UserID avail) uniqueUsers else uniqueUsers)"

text \<open>Lines 437-445: the search for an \<open>available\<close> record, left at the first hit.\<close>

fun isAvailable :: "string \<Rightarrow> string \<Rightarrow> TimeSlot \<Rightarrow> UserAvailability list \<Rightarrow> bool" where
  "isAvailable eventID userID slot [] = False"
| "isAvailable eventID userID slot (avail # rest) =
     (if UserAvailability.EventID avail = eventID \<and> UserAvailability.UserID avail = userID
         \<and> UserAvailability.TimeSlotID avail = TimeSlot.ID slot
         \<and> UserAvailability.Status avail = ''available''
      then True
      else isAvailable eventID userID slot rest)"

text \<open>Lines 436-452: the loop over the users, appending to one of the two lists.\<close>

fun classifyUsers ::
  "string \<Rightarrow> TimeSlot \<Rightarrow> UserAvailability list \<Rightarrow> string list \<Rightarrow> string list \<Rightarrow> string list
     \<Rightarrow> string list \<times> string list" where
  "classifyUsers eventID slot avails [] availableUsers unavailableUsers =
     (availableUsers, unavailableUsers)"
| "classifyUsers eventID slot avails (userID # rest) availableUsers unavailableUsers =
     (if isAvailable eventID userID slot avails
      then classifyUsers eventID slot avails rest (availableUsers @ [userID]) unavailableUsers
      else classifyUsers eventID slot avails rest availableUsers (unavailableUsers @ [userID]))"

text \<open>
  Lines 425-462: the loop over the slots of the event. \<open>userOrder i\<close> is the order in
  which \<open>range uniqueUsers\<close> yields the users in the iteration for the slot at
  position \<open>i\<close>.
\<close>

fun scoreSlots ::
  "Event \<Rightarrow> string \<Rightarrow> UserAvailability list \<Rightarrow> string set \<Rightarrow> (nat \<Rightarrow> string list) \<Rightarrow> nat
     \<Rightarrow> TimeSlot list \<Rightarrow> Recommendation list \<Rightarrow> Recommendation list" where
  "scoreSlots event eventID avails uniqueUsers userOrder i [] recommendations = recommendations"
| "scoreSlots event eventID avails uniqueUsers userOrder i (slot # rest) recommendations =
     (let slotDuration = Minutes (Sub (TimeSlot.EndTime slot) (TimeSlot.StartTime slot)) in
      if f_less slotDuration (float64_of_int (Event.RequiredDuration event))
      then scoreSlots event eventID avails uniqueUsers userOrder (i + 1) rest recommendations
      else
        let (availableUsers, unavailableUsers) =
              classifyUsers eventID slot avails (userOrder i) [] [];
            availabilityPercentage =
              f_times100 (f_div (float64_of_int (int (length availableUsers)))
                                (float64_of_int (int (card uniqueUsers))))
        in scoreSlots event eventID avails uniqueUsers userOrder (i + 1) rest
             (recommendations @
               [\<lparr>TimeSlot = slot,
                 AvailableUsers = availableUsers,
                 UnavailableUsers = unavailableUsers,
                 AvailabilityPercentage = availabilityPercentage\<rparr>]))"

text \<open>Lines 467-473: the exchange sort, inner loop over \<open>j\<close> and outer loop over \<open>i\<close>.\<close>

function sortInner :: "Recommendation list \<Rightarrow> nat \<Rightarrow> nat \<Rightarrow> Recommendation list" where
  "sortInner recommendations i j =
     (if j < length recommendations
      then sortInner
             (if f_less (AvailabilityPercentage (recommendations ! i))
                        (AvailabilityPercentage (recommendations ! j))
              then recommendations[i := recommendations ! j, j := recommendations ! i]
              else recommendations)
             i (j + 1)
      else recommendations)"
  by pat_completeness auto
termination
  by (relation "measure (\<lambda>(recommendations, i, j). length recommendations - j)") auto

declare sortInner.simps [simp del]

function sortOuter :: "Recommendation list \<Rightarrow> nat \<Rightarrow> Recommendation list" where
  "sortOuter recommendations i =
     (if i < length recommendations
      then sortOuter (sortInner recommendations i (i + 1)) (i + 1)
      else recommendations)"
  by pat_completeness auto
termination
proof (relation "measure (\<lambda>(recommendations, i). length recommendations - i)")
  show "wf (measure (\<lambda>(recommendations :: Recommendation list, i). length recommendations - i))"
    by simp
next
  fix recommendations :: "Recommendation list" and i :: nat
  assume lt: "i < length recommendations"
  have len: "length (sortInner rs a b) = length rs" for rs a b
  proof (induction rs a b rule: sortInner.induct)
    case (1 rs a b)
    show ?case
    proof (cases "b < length rs")
      case True
      with "1" show ?thesis by (subst sortInner.simps) simp
    next
      case False
      then show ?thesis by (subst sortInner.simps) simp
    qed
  qed
  from lt show "((sortInner recommendations i (i + 1), i + 1), recommendations, i)
        \<in> measure (\<lambda>(recommendations, i). length recommendations - i)"
    by (simp add: len)
qed

declare sortOuter.simps [simp del]

text \<open>
  The handler. \<open>slotOrder\<close> is the order of \<open>range timeSlots\<close> (line 398),
  \<open>availOrder\<close> the order of \<open>range userAvailability\<close> (lines 411 and 440; both loops
  compute a result that does not depend on the order, see \<open>collectUsers_order\<close> and
  \<open>isAvailable_order\<close>), \<open>userOrder\<close> the orders of \<open>range uniqueUsers\<close> (line 436).
  The response is the 404 error or the list of the 200 body; a nil slice and an empty
  slice are both the empty list.
\<close>

definition getRecommendations ::
  "store \<Rightarrow> string \<Rightarrow> (string \<times> TimeSlot) list \<Rightarrow> (string \<times> UserAvailability) list
     \<Rightarrow> (nat \<Rightarrow> string list) \<Rightarrow> error + Recommendation list" where
  "getRecommendations st eventID slotOrder availOrder userOrder =
     (case events st eventID of
        None \<Rightarrow> Inl (NotFound ''Event not found'')
      | Some event \<Rightarrow>
          let eventSlots = eventSlotsOf eventID (map snd slotOrder) [] in
          if length eventSlots = 0 then Inr []
          else
            let uniqueUsers = collectUsers eventID (map snd availOrder) {} in
            if card uniqueUsers = 0 then Inr []
            else
              let recommendations =
                    scoreSlots event eventID (map snd availOrder) uniqueUsers userOrder 0
                      eventSlots []
              in Inr (sortOuter recommendations 0))"

text \<open>The orders a run of the handler may see on a store.\<close>

definition validOrders ::
  "store \<Rightarrow> string \<Rightarrow> (string \<times> TimeSlot) list \<Rightarrow> (string \<times> UserAvailability) list
     \<Rightarrow> (nat \<Rightarrow> string list) \<Rightarrow> bool" where
  "validOrders st eventID slotOrder availOrder userOrder \<longleftrightarrow>
     ranges (timeSlots st) slotOrder \<and> ranges (userAvailability st) availOrder
     \<and> (\<forall>i. rangesKeys (collectUsers eventID (map snd availOrder) {}) (userOrder i))"

section \<open>Notions of the claims\<close>

text \<open>The value of a finite percentage, the key the sort compares.\<close>

fun val :: "float64 \<Rightarrow> real" where
  "val (Finite x) = x"
| "val _ = 0"

definition key :: "Recommendation \<Rightarrow> real" where
  "key r = val (AvailabilityPercentage r)"

definition allFinite :: "Recommendation list \<Rightarrow> bool" where
  "allFinite rs \<longleftrightarrow> (\<forall>r\<in>set rs. \<exists>x. AvailabilityPercentage r = Finite x)"

text \<open>The users known for an event: those of its availability records.\<close>

definition knownUsers :: "store \<Rightarrow> string \<Rightarrow> string set" where
  "knownUsers st eventID =
     {UserAvailability.UserID a | a.
        a \<in> ran (userAvailability st) \<and> UserAvailability.EventID a = eventID}"

text \<open>Some record of the store matches (event, user, slot) with status \<open>available\<close>.\<close>

definition hasAvailableRecord :: "store \<Rightarrow> string \<Rightarrow> string \<Rightarrow> string \<Rightarrow> bool" where
  "hasAvailableRecord st eventID userID slotID \<longleftrightarrow>
     (\<exists>a\<in>ran (userAvailability st).
        UserAvailability.EventID a = eventID \<and> UserAvailability.UserID a = userID
        \<and> UserAvailability.TimeSlotID a = slotID \<and> UserAvailability.Status a = ''available'')"

text \<open>
  The reading of C3: among the records of the store that match (event, user, slot), one
  with the greatest update time says \<open>available\<close>.
\<close>

definition latestRecordAvailable :: "store \<Rightarrow> string \<Rightarrow> string \<Rightarrow> string \<Rightarrow> bool" where
  "latestRecordAvailable st eventID userID slotID \<longleftrightarrow>
     (\<exists>a\<in>ran (userAvailability st).
        UserAvailability.EventID a = eventID \<and> UserAvailability.UserID a = userID
        \<and> UserAvailability.TimeSlotID a = slotID
        \<and> (\<forall>b\<in>ran (userAvailability st).
              UserAvailability.EventID b = eventID \<and> UserAvailability.UserID b = userID
              \<and> UserAvailability.TimeSlotID b = slotID \<longrightarrow>
              UserAvailability.UpdatedAt b \<le> UserAvailability.UpdatedAt a)
        \<and> UserAvailability.Status a = ''available'')"

text \<open>The length of a slot in minutes: (end - start) in minutes, as a real number.\<close>

definition slotMinutes :: "TimeSlot \<Rightarrow> real" where
  "slotMinutes slot =
     real_of_int (TimeSlot.EndTime slot - TimeSlot.StartTime slot) / 60000000000"

text \<open>
  The two orderings of C1: descending percentages, all of them finite numbers, and among
  equal percentages the earlier start time first.
\<close>

definition descendingByPercentage :: "Recommendation list \<Rightarrow> bool" where
  "descendingByPercentage recs \<longleftrightarrow>
     allFinite recs \<and> sorted_wrt (\<lambda>r r'. key r' \<le> key r) recs"

definition tiesByStartTime :: "Recommendation list \<Rightarrow> bool" where
  "tiesByStartTime recs \<longleftrightarrow>
     sorted_wrt (\<lambda>r r'. AvailabilityPercentage r = AvailabilityPercentage r' \<longrightarrow>
                   TimeSlot.StartTime (TimeSlot r) \<le> TimeSlot.StartTime (TimeSlot r')) recs"

text \<open>
  What a recommendation says once the order inside its two user lists is forgotten, and
  what a response says once the order of its recommendations is forgotten too.
\<close>

definition recView ::
  "Recommendation \<Rightarrow> TimeSlot \<times> string set \<times> string set \<times> float64" where
  "recView r =
     (TimeSlot r, set (AvailableUsers r), set (UnavailableUsers r), AvailabilityPercentage r)"

definition outcome ::
  "error + Recommendation list
     \<Rightarrow> error + (TimeSlot \<times> string set \<times> string set \<times> float64) multiset" where
  "outcome res = map_sum id (\<lambda>recs. mset (map recView recs)) res"

text \<open>The same view, computed from the store alone.\<close>

definition slotView ::
  "store \<Rightarrow> string \<Rightarrow> TimeSlot \<Rightarrow> TimeSlot \<times> string set \<times> string set \<times> float64" where
  "slotView st eventID slot =
     (slot,
      {u \<in> knownUsers st eventID. hasAvailableRecord st eventID u (TimeSlot.ID slot)},
      {u \<in> knownUsers st eventID. \<not> hasAvailableRecord st eventID u (TimeSlot.ID slot)},
      f_times100
        (f_div (float64_of_int (int (card {u \<in> knownUsers st eventID.
                                           hasAvailableRecord st eventID u (TimeSlot.ID slot)})))
               (float64_of_int (int (card (knownUsers st eventID))))))"

text \<open>The keys of the records of the store for one (event, user, slot).\<close>

definition recordsFor :: "store \<Rightarrow> string \<Rightarrow> string \<Rightarrow> string \<Rightarrow> string set" where
  "recordsFor st eventID userID slotID =
     {k. \<exists>a. userAvailability st k = Some a \<and> UserAvailability.EventID a = eventID
          \<and> UserAvailability.UserID a = userID \<and> UserAvailability.TimeSlotID a = slotID}"

section \<open>Notions of the proofs\<close>

text \<open>The invariant of the outer loop of the sort, the duration test of the handler and the
  recommendation it builds for one slot.\<close>

definition sortedUpTo :: "nat \<Rightarrow> Recommendation list \<Rightarrow> bool" where
  "sortedUpTo i rs \<longleftrightarrow> (\<forall>a b. a < i \<and> a < b \<and> b < length rs \<longrightarrow> key (rs ! b) \<le> key (rs ! a))"

definition eligible :: "Event \<Rightarrow> TimeSlot \<Rightarrow> bool" where
  "eligible event slot \<longleftrightarrow>
     \<not> f_less (Minutes (Sub (TimeSlot.EndTime slot) (TimeSlot.StartTime slot)))
              (float64_of_int (Event.RequiredDuration event))"

definition scoreSlot ::
  "string \<Rightarrow> UserAvailability list \<Rightarrow> string set \<Rightarrow> string list \<Rightarrow> TimeSlot \<Rightarrow> Recommendation" where
  "scoreSlot eventID avails uniqueUsers users slot =
     \<lparr>TimeSlot = slot,
      AvailableUsers = filter (\<lambda>u. isAvailable eventID u slot avails) users,
      UnavailableUsers = filter (\<lambda>u. \<not> isAvailable eventID u slot avails) users,
      AvailabilityPercentage =
        f_times100 (f_div (float64_of_int (int (length (filter (\<lambda>u. isAvailable eventID u slot avails) users))))
                          (float64_of_int (int (card uniqueUsers))))\<rparr>"

section \<open>Example stores\<close>

definition event1 :: Event where
  "event1 = \<lparr>Event.ID = ''e1'', Title = ''Team sync'', Description = ''weekly'',
     OrganizerID = ''org'', RequiredDuration = 60, Status = ''active'',
     CreatedAt = 0, UpdatedAt = 0\<rparr>"

definition slotA :: TimeSlot where
  "slotA = \<lparr>TimeSlot.ID = ''a'', EventID = ''e1'', StartTime = 0,
     EndTime = 5400000000000, CreatedAt = 0, UpdatedAt = 0\<rparr>"

definition storeNoRespondents :: store where
  "storeNoRespondents =
     \<lparr>events = [''e1'' \<mapsto> event1], timeSlots = [''a'' \<mapsto> slotA], userAvailability = Map.empty\<rparr>"

definition slotX :: TimeSlot where
  "slotX = \<lparr>TimeSlot.ID = ''x'', EventID = ''e1'', StartTime = 0,
     EndTime = 7200000000000, CreatedAt = 0, UpdatedAt = 0\<rparr>"

definition slotY :: TimeSlot where
  "slotY = \<lparr>TimeSlot.ID = ''y'', EventID = ''e1'', StartTime = 36000000000000,
     EndTime = 43200000000000, CreatedAt = 0, UpdatedAt = 0\<rparr>"

definition availU1X :: UserAvailability where
  "availU1X = \<lparr>UserAvailability.ID = ''r1'', UserID = ''u1'', EventID = ''e1'',
     TimeSlotID = ''x'', Status = ''available'', CreatedAt = 1, UpdatedAt = 1\<rparr>"

definition availU1Y :: UserAvailability where
  "availU1Y = \<lparr>UserAvailability.ID = ''r2'', UserID = ''u1'', EventID = ''e1'',
     TimeSlotID = ''y'', Status = ''available'', CreatedAt = 2, UpdatedAt = 2\<rparr>"

definition storeTie :: store where
  "storeTie =
     \<lparr>events = [''e1'' \<mapsto> event1],
      timeSlots = [''x'' \<mapsto> slotX, ''y'' \<mapsto> slotY],
      userAvailability = [''r1'' \<mapsto> availU1X, ''r2'' \<mapsto> availU1Y]\<rparr>"

definition slotC :: TimeSlot where
  "slotC = \<lparr>TimeSlot.ID = ''c'', EventID = ''e1'', StartTime = 12000000000000,
     EndTime = 19200000000000, CreatedAt = 0, UpdatedAt = 0\<rparr>"

definition rankedRecords :: "(string \<times> UserAvailability) list" where
  "rankedRecords =
     [(''r1'', \<lparr>UserAvailability.ID = ''r1'', UserID = ''u1'', EventID = ''e1'',
         TimeSlotID = ''a'', Status = ''available'', CreatedAt = 1, UpdatedAt = 1\<rparr>),
      (''r2'', \<lparr>UserAvailability.ID = ''r2'', UserID = ''u2'', EventID = ''e1'',
         TimeSlotID = ''a'', Status = ''unavailable'', CreatedAt = 2, UpdatedAt = 2\<rparr>),
      (''r3'', \<lparr>UserAvailability.ID = ''r3'', UserID = ''u1'', EventID = ''e1'',
         TimeSlotID = ''c'', Status = ''available'', CreatedAt = 3, UpdatedAt = 3\<rparr>),
      (''r4'', \<lparr>UserAvailability.ID = ''r4'', UserID = ''u2'', EventID = ''e1'',
         TimeSlotID = ''c'', Status = ''available'', CreatedAt = 4, UpdatedAt = 4\<rparr>)]"

definition storeRanked :: store where
  "storeRanked =
     \<lparr>events = [''e1'' \<mapsto> event1],
      timeSlots = map_of [(''a'', slotA), (''c'', slotC)],
      userAvailability = map_of rankedRecords\<rparr>"

definition slotB :: TimeSlot where
  "slotB = \<lparr>TimeSlot.ID = ''b'', EventID = ''e1'', StartTime = 6000000000000,
     EndTime = 7800000000000, CreatedAt = 0, UpdatedAt = 0\<rparr>"

definition scenarioRecords :: "(string \<times> UserAvailability) list" where
  "scenarioRecords =
     [(''r1'', \<lparr>UserAvailability.ID = ''r1'', UserID = ''u1'', EventID = ''e1'',
         TimeSlotID = ''a'', Status = ''available'', CreatedAt = 1, UpdatedAt = 1\<rparr>),
      (''r2'', \<lparr>UserAvailability.ID = ''r2'', UserID = ''u2'', EventID = ''e1'',
         TimeSlotID = ''a'', Status = ''available'', CreatedAt = 2, UpdatedAt = 2\<rparr>),
      (''r3'', \<lparr>UserAvailability.ID = ''r3'', UserID = ''u3'', EventID = ''e1'',
         TimeSlotID = ''a'', Status = ''unavailable'', CreatedAt = 3, UpdatedAt = 3\<rparr>),
      (''r4'', \<lparr>UserAvailability.ID = ''r4'', UserID = ''u1'', EventID = ''e1'',
         TimeSlotID = ''b'', Status = ''available'', CreatedAt = 4, UpdatedAt = 4\<rparr>),
      (''r5'', \<lparr>UserAvailability.ID = ''r5'', UserID = ''u2'', EventID = ''e1'',
         TimeSlotID = ''b'', Status = ''available'', CreatedAt = 5, UpdatedAt = 5\<rparr>),
      (''r6'', \<lparr>UserAvailability.ID = ''r6'', UserID = ''u3'', EventID = ''e1'',
         TimeSlotID = ''b'', Status = ''available'', CreatedAt = 6, UpdatedAt = 6\<rparr>),
      (''r7'', \<lparr>UserAvailability.ID = ''r7'', UserID = ''u4'', EventID = ''e2'',
         TimeSlotID = ''a'', Status = ''available'', CreatedAt = 7, UpdatedAt = 7\<rparr>)]"

text \<open>
  The scenario of the specification: the event needs 60 minutes, slot \<open>a\<close> lasts 90
  minutes with two of three users available, slot \<open>b\<close> lasts 30 minutes with all
  three available; a fourth user answered for another event only.
\<close>

definition storeScenario :: store where
  "storeScenario =
     \<lparr>events = [''e1'' \<mapsto> event1],
      timeSlots = map_of [(''a'', slotA), (''b'', slotB)],
      userAvailability = map_of scenarioRecords\<rparr>"

definition scenarioResult :: Recommendation where
  "scenarioResult =
     \<lparr>TimeSlot = slotA, AvailableUsers = [''u2'', ''u1''], UnavailableUsers = [''u3''],
      AvailabilityPercentage = Finite (2345624805922133 / 35184372088832)\<rparr>"

definition dupRecords :: "(string \<times> UserAvailability) list" where
  "dupRecords =
     [(''d1'', \<lparr>UserAvailability.ID = ''d1'', UserID = ''u1'', EventID = ''e1'',
         TimeSlotID = ''a'', Status = ''available'', CreatedAt = 100, UpdatedAt = 100\<rparr>),
      (''d2'', \<lparr>UserAvailability.ID = ''d2'', UserID = ''u1'', EventID = ''e1'',
         TimeSlotID = ''a'', Status = ''unavailable'', CreatedAt = 200, UpdatedAt = 200\<rparr>)]"

text \<open>
  One user with two records for the same event and slot: an older one saying
  \<open>available\<close>, a newer one saying \<open>unavailable\<close>.
\<close>

definition storeDup :: store where
  "storeDup =
     \<lparr>events = [''e1'' \<mapsto> event1],
      timeSlots = [''a'' \<mapsto> slotA],
      userAvailability = map_of dupRecords\<rparr>"

definition dupResult :: Recommendation where
  "dupResult =
     \<lparr>TimeSlot = slotA, AvailableUsers = [''u1''], UnavailableUsers = [],
      AvailabilityPercentage = Finite 100\<rparr>"

definition tieResultX :: Recommendation where
  "tieResultX =
     \<lparr>TimeSlot = slotX, AvailableUsers = [''u1''], UnavailableUsers = [],
      AvailabilityPercentage = Finite 100\<rparr>"

definition tieResultY :: Recommendation where
  "tieResultY =
     \<lparr>TimeSlot = slotY, AvailableUsers = [''u1''], UnavailableUsers = [],
      AvailabilityPercentage = Finite 100\<rparr>"

text \<open>An event whose only candidate slot in the store belongs to another event.\<close>

definition slotZ :: TimeSlot where
  "slotZ = \<lparr>TimeSlot.ID = ''z'', EventID = ''e2'', StartTime = 0,
     EndTime = 7200000000000, CreatedAt = 0, UpdatedAt = 0\<rparr>"

definition storeForeign :: store where
  "storeForeign =
     \<lparr>events = [''e1'' \<mapsto> event1], timeSlots = [''z'' \<mapsto> slotZ], userAvailability = Map.empty\<rparr>"

definition requestZ :: UserAvailabilityRequest where
  "requestZ = \<lparr>TimeSlotID = ''z'', Status = ''available''\<rparr>"

definition requestA :: UserAvailabilityRequest where
  "requestA = \<lparr>TimeSlotID = ''a'', Status = ''available''\<rparr>"

definition requestRetitle :: CreateEventRequest where
  "requestRetitle = \<lparr>Title = ''Planning'', Description = ''moved'',
     OrganizerID = ''org2'', RequiredDuration = 30\<rparr>"

text \<open>
  An event that needs 300000 minutes and a slot that ends one nanosecond before 300000
  minutes have passed.
\<close>

definition eventLong :: Event where
  "eventLong = \<lparr>Event.ID = ''e3'', Title = ''Retreat'', Description = ''offsite'',
     OrganizerID = ''org'', RequiredDuration = 300000, Status = ''active'',
     CreatedAt = 0, UpdatedAt = 0\<rparr>"

definition slotLong :: TimeSlot where
  "slotLong = \<lparr>TimeSlot.ID = ''l'', EventID = ''e3'', StartTime = 0,
     EndTime = 17999999999999999, CreatedAt = 0, UpdatedAt = 0\<rparr>"

definition availLong :: UserAvailability where
  "availLong = \<lparr>UserAvailability.ID = ''r1'', UserID = ''u1'', EventID = ''e3'',
     TimeSlotID = ''l'', Status = ''available'', CreatedAt = 1, UpdatedAt = 1\<rparr>"

definition storeLong :: store where
  "storeLong =
     \<lparr>events = [''e3'' \<mapsto> eventLong], timeSlots = [''l'' \<mapsto> slotLong],
      userAvailability = [''r1'' \<mapsto> availLong]\<rparr>"

definition longResult :: Recommendation where
  "longResult =
     \<lparr>TimeSlot = slotLong, AvailableUsers = [''u1''], UnavailableUsers = [],
      AvailabilityPercentage = Finite 100\<rparr>"

text \<open>A body whose status is none of the two words the binding accepts.\<close>

definition requestMaybe :: UserAvailabilityRequest where
  "requestMaybe = \<lparr>TimeSlotID = ''z'', Status = ''maybe''\<rparr>"

section \<open>Rounding\<close>

lemma scaleDown_range:
  "0 < m \<Longrightarrow> 0 < scaleDown m \<and> scaleDown m < 2 ^ 53"
proof (induction m rule: scaleDown.induct)
  case (1 m)
  show ?case
  proof (cases "2 ^ 53 \<le> m")
    case True
    with "1" show ?thesis by (subst (1 2) scaleDown.simps) simp
  next
    case False
    with "1.prems" show ?thesis by (subst (1 2) scaleDown.simps) simp
  qed
qed

lemma scaleUp_range:
  "0 < m \<Longrightarrow> m < 2 ^ 53 \<Longrightarrow> 2 ^ 52 \<le> scaleUp m \<and> scaleUp m < 2 ^ 53"
proof (induction m rule: scaleUp.induct)
  case (1 m)
  show ?case
  proof (cases "0 < m \<and> m < 2 ^ 52")
    case True
    with "1" show ?thesis by (subst (1 2) scaleUp.simps) simp
  next
    case False
    with "1.prems" show ?thesis by (subst (1 2) scaleUp.simps) simp
  qed
qed

lemma significand_range:
  "0 < x \<Longrightarrow> 2 ^ 52 \<le> significand x \<and> significand x < 2 ^ 53"
  using scaleDown_range[of x] scaleUp_range[of "scaleDown x"] by (simp add: significand_def)

lemma roundEven_near: "\<bar>real_of_int (roundEven m) - m\<bar> \<le> 1 / 2"
  unfolding roundEven_def Let_def by (auto simp: abs_if) linarith+

lemma roundEven_ge_floor: "\<lfloor>m\<rfloor> \<le> roundEven m"
  by (simp add: roundEven_def Let_def)

lemma roundEven_Ints: "m \<in> \<int> \<Longrightarrow> real_of_int (roundEven m) = m"
  by (auto simp: roundEven_def Let_def elim!: Ints_cases)

text \<open>the relative error of one rounding\<close>
lemma round64_error: "\<bar>round64 x - x\<bar> \<le> \<bar>x\<bar> / 2 ^ 53"
proof (cases "x = 0")
  case True
  then show ?thesis by (simp add: round64_def)
next
  case False
  define m where "m = significand \<bar>x\<bar>"
  have m: "2 ^ 52 \<le> m" using significand_range[of "\<bar>x\<bar>"] False by (simp add: m_def)
  then have m0: "0 < m" by (rule less_le_trans[rotated]) simp
  have "round64 x - x = (real_of_int (roundEven m) - m) * x / m"
    using False m0 by (simp add: round64_def m_def[symmetric] Let_def field_simps)
  then have "\<bar>round64 x - x\<bar> = \<bar>real_of_int (roundEven m) - m\<bar> * \<bar>x\<bar> / m"
    using m0 by (simp add: abs_mult)
  also have "\<dots> \<le> (1 / 2) * \<bar>x\<bar> / m"
  proof -
    have "\<bar>real_of_int (roundEven m) - m\<bar> * \<bar>x\<bar> \<le> (1 / 2) * \<bar>x\<bar>"
      using roundEven_near[of m] by (rule mult_right_mono) simp
    then show ?thesis
      using m0 by (rule divide_right_mono[OF _ less_imp_le])
  qed
  also have "\<dots> \<le> (1 / 2) * \<bar>x\<bar> / 2 ^ 52"
    using m m0 by (intro divide_left_mono) simp_all
  finally show ?thesis by simp
qed

lemma round64_eq_0_iff: "round64 x = 0 \<longleftrightarrow> x = 0"
proof (cases "x = 0")
  case True
  then show ?thesis by (simp add: round64_def)
next
  case False
  define m where "m = significand \<bar>x\<bar>"
  have m: "2 ^ 52 \<le> m" using significand_range[of "\<bar>x\<bar>"] False by (simp add: m_def)
  then have m0: "0 < m" by (rule less_le_trans[rotated]) simp
  have "1 \<le> m" using m by simp
  then have "0 < \<lfloor>m\<rfloor>" by simp
  then have "0 < roundEven m" using roundEven_ge_floor[of m] by linarith
  then show ?thesis
    using False m0 by (simp add: round64_def m_def[symmetric] Let_def)
qed

lemma scaleUp_Ints: "m \<in> \<int> \<Longrightarrow> scaleUp m \<in> \<int>"
proof (induction m rule: scaleUp.induct)
  case (1 m)
  show ?case
  proof (cases "0 < m \<and> m < 2 ^ 52")
    case True
    have "m * 2 \<in> \<int>" using "1.prems" by simp
    then have "scaleUp (m * 2) \<in> \<int>" using "1.IH"[OF True] by simp
    moreover have "scaleUp m = scaleUp (m * 2)"
      using True by (subst scaleUp.simps) simp
    ultimately show ?thesis by simp
  next
    case False
    then have "scaleUp m = m" by (subst scaleUp.simps) auto
    with "1.prems" show ?thesis by simp
  qed
qed

text \<open>integers of at most 53 bits are not changed\<close>
lemma round64_Ints:
  assumes "x \<in> \<int>" and "\<bar>x\<bar> \<le> 2 ^ 53"
  shows "round64 x = x"
proof (cases "x = 0")
  case True
  then show ?thesis by (simp add: round64_def)
next
  case False
  have a: "\<bar>x\<bar> \<in> \<int>" using assms(1) by (auto simp: abs_if)
  have "scaleDown \<bar>x\<bar> \<in> \<int>"
  proof (cases "\<bar>x\<bar> = 2 ^ 53")
    case True
    then show ?thesis by (simp add: scaleDown.simps)
  next
    case False
    with assms(2) a show ?thesis by (subst scaleDown.simps) simp
  qed
  then have "significand \<bar>x\<bar> \<in> \<int>"
    unfolding significand_def by (rule scaleUp_Ints)
  moreover have "0 < significand \<bar>x\<bar>"
    using significand_range[of "\<bar>x\<bar>"] False by simp
  ultimately show ?thesis
    using False by (simp add: round64_def Let_def roundEven_Ints)
qed

lemma round64_bounds:
  assumes "0 \<le> x"
  shows "x * (1 - 1 / 2 ^ 53) \<le> round64 x" and "round64 x \<le> x * (1 + 1 / 2 ^ 53)"
proof -
  define e where "e = x / 2 ^ 53"
  have "\<bar>round64 x - x\<bar> \<le> e"
    using round64_error[of x] assms by (simp add: e_def)
  then have b: "x - e \<le> round64 x" "round64 x \<le> x + e"
    by linarith+
  have "x * (1 - 1 / 2 ^ 53) = x - e" "x * (1 + 1 / 2 ^ 53) = x + e"
    by (simp_all add: e_def algebra_simps)
  with b show "x * (1 - 1 / 2 ^ 53) \<le> round64 x" and "round64 x \<le> x * (1 + 1 / 2 ^ 53)"
    by simp_all
qed

text \<open>the four roundings of a percentage together\<close>
lemma ratio_error:
  fixes a n :: nat
  assumes n: "0 < n"
  shows "\<bar>round64 (round64 (round64 (real a) / round64 (real n)) * 100) - real a / real n * 100\<bar>
           \<le> real a / real n * 100 / 2 ^ 50"
proof -
  define l :: real where "l = 1 - 1 / 2 ^ 53"
  define u :: real where "u = 1 + 1 / 2 ^ 53"
  define fa where "fa = round64 (real a)"
  define fn where "fn = round64 (real n)"
  define q where "q = round64 (fa / fn)"
  define p where "p = round64 (q * 100)"
  define X where "X = real a / real n * 100"
  have l0: "0 < l" and u0: "0 < u" by (simp_all add: l_def u_def)
  have num_up: "u * u * u \<le> (1 + 1 / 2 ^ 50) * l" by (simp add: l_def u_def)
  have num_lo: "(1 - 1 / 2 ^ 50) * u \<le> l * l * l" by (simp add: l_def u_def)
  have fa: "real a * l \<le> fa" "fa \<le> real a * u"
    using round64_bounds[of "real a"] by (simp_all add: fa_def l_def u_def)
  have fn: "real n * l \<le> fn" "fn \<le> real n * u"
    using round64_bounds[of "real n"] by (simp_all add: fn_def l_def u_def)
  have nl: "0 < real n * l" using n l0 by simp
  then have fn0: "0 < fn" using fn(1) by linarith
  have fa0: "0 \<le> fa" using fa(1) l0 by (meson dual_order.trans mult_nonneg_nonneg of_nat_0_le_iff less_imp_le)
  have t0: "0 \<le> fa / fn" using fa0 fn0 by simp
  have t_up: "fa / fn \<le> (real a * u) / (real n * l)"
    using fa(2) fn(1) nl u0 by (intro frac_le) simp_all
  have t_lo: "(real a * l) / (real n * u) \<le> fa / fn"
    using fa(1) fn(2) fn0 fa0 by (intro frac_le) simp_all
  have q: "fa / fn * l \<le> q" "q \<le> fa / fn * u"
    using round64_bounds[OF t0] by (simp_all add: q_def l_def u_def)
  have q0: "0 \<le> q" using q(1) t0 l0 by (meson dual_order.trans mult_nonneg_nonneg less_imp_le)
  have p: "q * 100 * l \<le> p" "p \<le> q * 100 * u"
    using round64_bounds[of "q * 100"] q0 by (simp_all add: p_def l_def u_def)
  have "p \<le> (real a * u) / (real n * l) * u * 100 * u"
  proof -
    have "q \<le> (real a * u) / (real n * l) * u"
      using q(2) t_up u0 by (meson dual_order.trans mult_right_mono less_imp_le)
    then have "q * 100 \<le> (real a * u) / (real n * l) * u * 100"
      by (rule mult_right_mono) simp
    then have "q * 100 * u \<le> (real a * u) / (real n * l) * u * 100 * u"
      by (rule mult_right_mono) (rule less_imp_le[OF u0])
    with p(2) show ?thesis by linarith
  qed
  also have "\<dots> = X * ((u * u * u) / l)"
    using l0 n by (simp add: X_def field_simps)
  also have "\<dots> \<le> X * (1 + 1 / 2 ^ 50)"
  proof -
    have "(u * u * u) / l \<le> 1 + 1 / 2 ^ 50"
      using num_up l0 by (simp add: pos_divide_le_eq)
    moreover have "0 \<le> X" by (simp add: X_def)
    ultimately show ?thesis by (rule mult_left_mono)
  qed
  finally have up: "p \<le> X * (1 + 1 / 2 ^ 50)" .
  have "(real a * l) / (real n * u) * l * 100 * l \<le> p"
  proof -
    have "(real a * l) / (real n * u) * l \<le> q"
      using q(1) t_lo l0 by (meson dual_order.trans mult_right_mono less_imp_le)
    then have "(real a * l) / (real n * u) * l * 100 \<le> q * 100"
      by (rule mult_right_mono) simp
    then have "(real a * l) / (real n * u) * l * 100 * l \<le> q * 100 * l"
      by (rule mult_right_mono) (rule less_imp_le[OF l0])
    with p(1) show ?thesis by linarith
  qed
  moreover have "(real a * l) / (real n * u) * l * 100 * l = X * ((l * l * l) / u)"
    using u0 n by (simp add: X_def field_simps)
  moreover have "X * (1 - 1 / 2 ^ 50) \<le> X * ((l * l * l) / u)"
  proof -
    have "1 - 1 / 2 ^ 50 \<le> (l * l * l) / u"
      using num_lo u0 by (simp add: pos_le_divide_eq)
    moreover have "0 \<le> X" by (simp add: X_def)
    ultimately show ?thesis by (rule mult_left_mono)
  qed
  ultimately have lo: "X * (1 - 1 / 2 ^ 50) \<le> p" by linarith
  define d where "d = X / 2 ^ 50"
  have "X * (1 + 1 / 2 ^ 50) = X + d" "X * (1 - 1 / 2 ^ 50) = X - d"
    by (simp_all add: d_def algebra_simps)
  with up lo have "p \<le> X + d" "X - d \<le> p" by simp_all
  then have "\<bar>p - X\<bar> \<le> d" by linarith
  then have "\<bar>p - X\<bar> \<le> X / 2 ^ 50" by (simp only: d_def)
  then show ?thesis
    by (simp add: p_def q_def fa_def fn_def X_def)
qed

lemma percentage_value:
  fixes a n :: nat
  assumes "0 < n"
  shows "f_times100 (f_div (float64_of_int (int a)) (float64_of_int (int n)))
     = Finite (round64 (round64 (round64 (real a) / round64 (real n)) * 100))"
  using assms by (simp add: float64_of_int_def round64_eq_0_iff)

lemma percentage_Finite:
  "n \<noteq> 0 \<Longrightarrow>
   \<exists>x. f_times100 (f_div (float64_of_int a) (float64_of_int (int n))) = Finite x"
  by (simp add: float64_of_int_def round64_eq_0_iff)

text \<open>what the evaluation of a rounding on numerals unfolds\<close>
lemmas round64_eval =
  round64_def significand_def scaleDown.simps scaleUp.simps roundEven_def Let_def

lemmas Minutes_eval =
  Minutes_def Minute_def Sub_def minDuration_def maxDuration_def float64_of_int_def
  signed_divide_int_def signed_modulo_int_def


section \<open>The loops as list functions\<close>

lemma eventSlotsOf_filter:
  "eventSlotsOf eventID slots acc = acc @ filter (\<lambda>slot. TimeSlot.EventID slot = eventID) slots"
  by (induction slots arbitrary: acc) auto

lemma collectUsers_eq:
  "collectUsers eventID avails acc =
     acc \<union> {UserAvailability.UserID a | a. a \<in> set avails \<and> UserAvailability.EventID a = eventID}"
  by (induction avails arbitrary: acc) auto

lemma isAvailable_iff:
  "isAvailable eventID userID slot avails \<longleftrightarrow>
     (\<exists>a\<in>set avails. UserAvailability.EventID a = eventID \<and> UserAvailability.UserID a = userID
        \<and> UserAvailability.TimeSlotID a = TimeSlot.ID slot
        \<and> UserAvailability.Status a = ''available'')"
  by (induction avails) auto

lemma classifyUsers_filter:
  "classifyUsers eventID slot avails users av un =
     (av @ filter (\<lambda>u. isAvailable eventID u slot avails) users,
      un @ filter (\<lambda>u. \<not> isAvailable eventID u slot avails) users)"
  by (induction users arbitrary: av un) auto

lemma scoreSlots_eq:
  "scoreSlots event eventID avails uniqueUsers userOrder i slots recs =
     recs @ map (\<lambda>(k, slot). scoreSlot eventID avails uniqueUsers (userOrder k) slot)
              (filter (\<lambda>(k, slot). eligible event slot) (zip [i..<i + length slots] slots))"
proof (induction slots arbitrary: i recs)
  case Nil
  then show ?case by simp
next
  case (Cons slot rest)
  have upt: "[i..<i + length (slot # rest)] = i # [i + 1..<(i + 1) + length rest]"
    by (subst upt_rec) simp
  show ?case
    unfolding upt
    by (simp add: Cons.IH eligible_def scoreSlot_def classifyUsers_filter Let_def)
qed

section \<open>The exchange sort\<close>

lemma f_less_key:
  "\<exists>x. AvailabilityPercentage a = Finite x \<Longrightarrow> \<exists>y. AvailabilityPercentage b = Finite y \<Longrightarrow>
   f_less (AvailabilityPercentage a) (AvailabilityPercentage b) \<longleftrightarrow> key a < key b"
  by (auto simp: key_def)

lemma length_sortInner: "length (sortInner rs i j) = length rs"
proof (induction rs i j rule: sortInner.induct)
  case (1 rs i j)
  show ?case
  proof (cases "j < length rs")
    case True
    with "1" show ?thesis by (subst sortInner.simps) simp
  next
    case False
    then show ?thesis by (subst sortInner.simps) simp
  qed
qed

lemma mset_sortInner: "i < j \<Longrightarrow> mset (sortInner rs i j) = mset rs"
proof (induction rs i j rule: sortInner.induct)
  case (1 rs i j)
  show ?case
  proof (cases "j < length rs")
    case True
    let ?rs' = "(if f_less (AvailabilityPercentage (rs ! i)) (AvailabilityPercentage (rs ! j))
              then rs[i := rs ! j, j := rs ! i] else rs)"
    have "mset (sortInner ?rs' i (j + 1)) = mset ?rs'"
      using "1.IH"[OF True] "1.prems" by simp
    moreover have "mset ?rs' = mset rs"
      using True "1.prems" by (simp add: mset_swap)
    moreover have "sortInner rs i j = sortInner ?rs' i (j + 1)"
      using True by (subst sortInner.simps) simp
    ultimately show ?thesis by simp
  next
    case False
    then show ?thesis by (subst sortInner.simps) simp
  qed
qed

lemma sortInner_done: "\<not> j < length rs \<Longrightarrow> sortInner rs i j = rs"
  by (subst sortInner.simps) simp

lemma sortInner_swap:
  "j < length rs \<Longrightarrow> f_less (AvailabilityPercentage (rs ! i)) (AvailabilityPercentage (rs ! j)) \<Longrightarrow>
   sortInner rs i j = sortInner (rs[i := rs ! j, j := rs ! i]) i (j + 1)"
  by (subst sortInner.simps) simp

lemma sortInner_keep:
  "j < length rs \<Longrightarrow> \<not> f_less (AvailabilityPercentage (rs ! i)) (AvailabilityPercentage (rs ! j)) \<Longrightarrow>
   sortInner rs i j = sortInner rs i (j + 1)"
  by (subst sortInner.simps) simp

lemma allFinite_nth: "allFinite rs \<Longrightarrow> k < length rs \<Longrightarrow> \<exists>x. AvailabilityPercentage (rs ! k) = Finite x"
  by (simp add: allFinite_def)

lemma allFinite_mset: "mset rs = mset rs' \<Longrightarrow> allFinite rs = allFinite rs'"
  using mset_eq_setD[of rs rs'] by (simp add: allFinite_def)

text \<open>positions before j other than i are untouched\<close>

lemma sortInner_untouched:
  "i < j \<Longrightarrow> k < j \<Longrightarrow> k \<noteq> i \<Longrightarrow> sortInner rs i j ! k = rs ! k"
proof (induction rs i j rule: sortInner.induct)
  case (1 rs i j)
  show ?case
  proof (cases "j < length rs")
    case False
    then show ?thesis by (simp add: sortInner_done)
  next
    case True
    show ?thesis
    proof (cases "f_less (AvailabilityPercentage (rs ! i)) (AvailabilityPercentage (rs ! j))")
      case sw: True
      have "sortInner (rs[i := rs ! j, j := rs ! i]) i (j + 1) ! k = (rs[i := rs ! j, j := rs ! i]) ! k"
        using "1.IH"[OF True] sw "1.prems" by simp
      with True sw "1.prems" show ?thesis by (simp add: sortInner_swap)
    next
      case ns: False
      have "sortInner rs i (j + 1) ! k = rs ! k"
        using "1.IH"[OF True] ns "1.prems" by simp
      with True ns show ?thesis by (simp add: sortInner_keep)
    qed
  qed
qed

text \<open>after the inner loop, position i holds a maximum of the positions from i on\<close>

lemma sortInner_max:
  "i < j \<Longrightarrow> allFinite rs \<Longrightarrow> \<forall>k. i < k \<and> k < j \<longrightarrow> key (rs ! k) \<le> key (rs ! i) \<Longrightarrow>
   i < k \<Longrightarrow> k < length rs \<Longrightarrow> key (sortInner rs i j ! k) \<le> key (sortInner rs i j ! i)"
proof (induction rs i j rule: sortInner.induct)
  case (1 rs i j)
  show ?case
  proof (cases "j < length rs")
    case False
    with "1.prems" show ?thesis by (simp add: sortInner_done)
  next
    case True
    have fi: "\<exists>x. AvailabilityPercentage (rs ! i) = Finite x"
      using "1.prems" True by (simp add: allFinite_nth)
    have fj: "\<exists>x. AvailabilityPercentage (rs ! j) = Finite x"
      using "1.prems" True by (simp add: allFinite_nth)
    show ?thesis
    proof (cases "f_less (AvailabilityPercentage (rs ! i)) (AvailabilityPercentage (rs ! j))")
      case sw: True
      let ?rs' = "rs[i := rs ! j, j := rs ! i]"
      have lt: "key (rs ! i) < key (rs ! j)"
        using sw f_less_key[OF fi fj] by simp
      have m: "mset ?rs' = mset rs"
        using True "1.prems"(1) by (simp add: mset_swap)
      have af: "allFinite ?rs'"
        using allFinite_mset[OF m] "1.prems"(2) by simp
      have inv: "\<forall>k. i < k \<and> k < j + 1 \<longrightarrow> key (?rs' ! k) \<le> key (?rs' ! i)"
      proof (intro allI impI)
        fix k assume k: "i < k \<and> k < j + 1"
        show "key (?rs' ! k) \<le> key (?rs' ! i)"
        proof (cases "k = j")
          case True
          with \<open>j < length rs\<close> "1.prems"(1) lt show ?thesis by simp
        next
          case False
          with k have kj: "k < j" by simp
          have e1: "?rs' ! k = rs ! k"
            using k kj by simp
          have e2: "?rs' ! i = rs ! j"
            using "1.prems"(1) \<open>j < length rs\<close> by simp
          have "key (rs ! k) \<le> key (rs ! i)"
            using "1.prems"(3) k kj by simp
          with lt e1 e2 show ?thesis by simp
        qed
      qed
      have "key (sortInner ?rs' i (j + 1) ! k) \<le> key (sortInner ?rs' i (j + 1) ! i)"
        using "1.IH"[OF True] sw "1.prems"(1,4,5) af inv by simp
      with True sw show ?thesis by (simp add: sortInner_swap)
    next
      case ns: False
      have le: "key (rs ! j) \<le> key (rs ! i)"
        using ns f_less_key[OF fi fj] by simp
      have inv: "\<forall>k. i < k \<and> k < j + 1 \<longrightarrow> key (rs ! k) \<le> key (rs ! i)"
        using "1.prems"(3) le by (auto simp: less_Suc_eq)
      have "key (sortInner rs i (j + 1) ! k) \<le> key (sortInner rs i (j + 1) ! i)"
        using "1.IH"[OF True] ns "1.prems"(1,2,4,5) inv by simp
      with True ns show ?thesis by (simp add: sortInner_keep)
    qed
  qed
qed

lemma take_sortInner: "i < j \<Longrightarrow> take i (sortInner rs i j) = take i rs"
  by (rule nth_equalityI) (simp_all add: length_sortInner sortInner_untouched)

lemma set_drop_sortInner:
  assumes "i < j"
  shows "set (drop i (sortInner rs i j)) = set (drop i rs)"
proof -
  let ?res = "sortInner rs i j"
  have "mset (take i ?res) + mset (drop i ?res) = mset (take i rs) + mset (drop i rs)"
    using mset_sortInner[OF assms, of rs] by (simp flip: mset_append)
  then have "mset (drop i ?res) = mset (drop i rs)"
    using take_sortInner[OF assms, of rs] by simp
  then show ?thesis by (rule mset_eq_setD)
qed

lemma in_set_drop_nth:
  "x \<in> set (drop i xs) \<longleftrightarrow> (\<exists>k. i \<le> k \<and> k < length xs \<and> xs ! k = x)"
proof
  assume "x \<in> set (drop i xs)"
  then obtain n where n: "n < length xs - i" "drop i xs ! n = x"
    by (auto simp: in_set_conv_nth)
  then have "i \<le> i + n \<and> i + n < length xs \<and> xs ! (i + n) = x" by simp
  then show "\<exists>k. i \<le> k \<and> k < length xs \<and> xs ! k = x" by blast
next
  assume "\<exists>k. i \<le> k \<and> k < length xs \<and> xs ! k = x"
  then obtain k where k: "i \<le> k" "k < length xs" "xs ! k = x" by blast
  then have "k - i < length (drop i xs)" "drop i xs ! (k - i) = x" by simp_all
  then show "x \<in> set (drop i xs)" by (metis nth_mem)
qed

lemma sortInner_sortedUpTo:
  assumes i: "i < length rs" and af: "allFinite rs" and inv: "sortedUpTo i rs"
  shows "sortedUpTo (i + 1) (sortInner rs i (i + 1))"
  unfolding sortedUpTo_def
proof (intro allI impI)
  let ?res = "sortInner rs i (i + 1)"
  fix a b
  assume ab: "a < i + 1 \<and> a < b \<and> b < length ?res"
  then have b: "b < length rs" by (simp add: length_sortInner)
  show "key (?res ! b) \<le> key (?res ! a)"
  proof (cases "a = i")
    case True
    with ab b af show ?thesis
      using sortInner_max[of i "i + 1" rs b] by simp
  next
    case False
    with ab have a: "a < i" by simp
    then have ea: "?res ! a = rs ! a"
      by (simp add: sortInner_untouched)
    show ?thesis
    proof (cases "b < i")
      case True
      then have "?res ! b = rs ! b" by (simp add: sortInner_untouched)
      with ea inv ab b a show ?thesis by (simp add: sortedUpTo_def)
    next
      case False
      then have "i \<le> b \<and> b < length ?res \<and> ?res ! b = ?res ! b"
        using ab by simp
      then have "?res ! b \<in> set (drop i ?res)"
        unfolding in_set_drop_nth by blast
      then have "?res ! b \<in> set (drop i rs)"
        by (simp add: set_drop_sortInner)
      then obtain b' where b': "i \<le> b'" "b' < length rs" "?res ! b = rs ! b'"
        by (auto simp: in_set_drop_nth)
      with a inv have "key (rs ! b') \<le> key (rs ! a)"
        by (simp add: sortedUpTo_def)
      with ea b' show ?thesis by simp
    qed
  qed
qed

lemma sortOuter_done: "\<not> i < length rs \<Longrightarrow> sortOuter rs i = rs"
  by (subst sortOuter.simps) simp

lemma sortOuter_step: "i < length rs \<Longrightarrow> sortOuter rs i = sortOuter (sortInner rs i (i + 1)) (i + 1)"
  by (subst sortOuter.simps) simp

lemma mset_sortOuter: "mset (sortOuter rs i) = mset rs"
proof (induction rs i rule: sortOuter.induct)
  case (1 rs i)
  show ?case
  proof (cases "i < length rs")
    case True
    with "1.IH" show ?thesis by (simp add: sortOuter_step mset_sortInner)
  next
    case False
    then show ?thesis by (simp add: sortOuter_done)
  qed
qed

lemma length_sortOuter: "length (sortOuter rs i) = length rs"
  using mset_sortOuter[of rs i] by (metis size_mset)

lemma sortOuter_sortedUpTo:
  "allFinite rs \<Longrightarrow> sortedUpTo i rs \<Longrightarrow> sortedUpTo (length rs) (sortOuter rs i)"
proof (induction rs i rule: sortOuter.induct)
  case (1 rs i)
  show ?case
  proof (cases "i < length rs")
    case True
    let ?rs' = "sortInner rs i (i + 1)"
    have "allFinite ?rs'"
      using allFinite_mset[of ?rs' rs] "1.prems"(1) by (simp add: mset_sortInner)
    moreover have "sortedUpTo (i + 1) ?rs'"
      using sortInner_sortedUpTo[OF True "1.prems"] .
    ultimately have "sortedUpTo (length ?rs') (sortOuter ?rs' (i + 1))"
      using "1.IH"[OF True] by simp
    with True show ?thesis by (simp add: sortOuter_step length_sortInner)
  next
    case False
    with "1.prems" show ?thesis
      by (auto simp: sortOuter_done sortedUpTo_def)
  qed
qed

lemma sortOuter_descending:
  assumes "allFinite rs" and "a < b" and "b < length rs"
  shows "key (sortOuter rs 0 ! b) \<le> key (sortOuter rs 0 ! a)"
proof -
  have "sortedUpTo 0 rs" by (simp add: sortedUpTo_def)
  then have "sortedUpTo (length rs) (sortOuter rs 0)"
    using assms(1) by (rule sortOuter_sortedUpTo[rotated])
  with assms(2,3) show ?thesis
    by (simp add: sortedUpTo_def length_sortOuter)
qed

section \<open>The shape of a response\<close>

lemma ranges_mem: "ranges m kvs \<Longrightarrow> (k, v) \<in> set kvs \<longleftrightarrow> m k = Some v"
  by (auto simp: ranges_def)

lemma ranges_values:
  assumes a: "ranges m kvs"
  shows "set (map snd kvs) = ran m"
proof (intro set_eqI iffI)
  fix v assume "v \<in> set (map snd kvs)"
  then obtain k where "(k, v) \<in> set kvs" by auto
  with a have "m k = Some v" by (simp add: ranges_mem)
  then show "v \<in> ran m" by (rule ranI)
next
  fix v assume "v \<in> ran m"
  then obtain k where "m k = Some v" by (auto simp: ran_def)
  with a have "(k, v) \<in> set kvs" by (simp add: ranges_mem)
  then show "v \<in> set (map snd kvs)" by force
qed

lemma ranges_mset:
  assumes "ranges m xs" and "ranges m ys"
  shows "mset xs = mset ys"
proof -
  have "distinct xs" "distinct ys"
    using assms by (auto simp: ranges_def distinct_map)
  moreover have "set xs = set ys"
    using assms by (auto simp: ranges_mem)
  ultimately show ?thesis
    by (simp add: set_eq_iff_mset_eq_distinct)
qed

lemma collectUsers_order:
  "set avails = set avails' \<Longrightarrow> collectUsers eventID avails acc = collectUsers eventID avails' acc"
  by (simp add: collectUsers_eq)

lemma isAvailable_order:
  "set avails = set avails' \<Longrightarrow>
   isAvailable eventID userID slot avails = isAvailable eventID userID slot avails'"
  by (simp add: isAvailable_iff)

lemma collectUsers_ranges:
  "ranges m availOrder \<Longrightarrow>
   collectUsers eventID (map snd availOrder) {} =
     {UserAvailability.UserID a | a. a \<in> ran m \<and> UserAvailability.EventID a = eventID}"
  using ranges_values[of m availOrder] by (simp add: collectUsers_eq)

lemma finite_collectUsers: "finite acc \<Longrightarrow> finite (collectUsers eventID avails acc)"
  by (induction avails arbitrary: acc) auto

text \<open>the shape of a successful response\<close>
lemma getRecommendations_Inr:
  assumes "getRecommendations st eventID slotOrder availOrder userOrder = Inr recs"
  shows "\<exists>event. events st eventID = Some event \<and>
     (recs = [] \<or>
      (card (collectUsers eventID (map snd availOrder) {}) \<noteq> 0 \<and>
       recs = sortOuter
         (map (\<lambda>(k, slot). scoreSlot eventID (map snd availOrder)
                  (collectUsers eventID (map snd availOrder) {}) (userOrder k) slot)
            (filter (\<lambda>(k, slot). eligible event slot)
               (zip [0..<length (filter (\<lambda>slot. TimeSlot.EventID slot = eventID) (map snd slotOrder))]
                    (filter (\<lambda>slot. TimeSlot.EventID slot = eventID) (map snd slotOrder))))) 0))"
  using assms
  by (auto simp: getRecommendations_def eventSlotsOf_filter scoreSlots_eq Let_def
           split: option.splits if_splits)

lemma getRecommendations_mem:
  assumes res: "getRecommendations st eventID slotOrder availOrder userOrder = Inr recs"
    and r: "r \<in> set recs"
  shows "\<exists>event k slot. events st eventID = Some event
      \<and> card (collectUsers eventID (map snd availOrder) {}) \<noteq> 0
      \<and> slot \<in> set (map snd slotOrder) \<and> TimeSlot.EventID slot = eventID
      \<and> eligible event slot
      \<and> r = scoreSlot eventID (map snd availOrder)
                (collectUsers eventID (map snd availOrder) {}) (userOrder k) slot"
proof -
  from getRecommendations_Inr[OF res] r obtain event where
    ev: "events st eventID = Some event"
    and c: "card (collectUsers eventID (map snd availOrder) {}) \<noteq> 0"
    and recs: "recs = sortOuter
         (map (\<lambda>(k, slot). scoreSlot eventID (map snd availOrder)
                  (collectUsers eventID (map snd availOrder) {}) (userOrder k) slot)
            (filter (\<lambda>(k, slot). eligible event slot)
               (zip [0..<length (filter (\<lambda>slot. TimeSlot.EventID slot = eventID) (map snd slotOrder))]
                    (filter (\<lambda>slot. TimeSlot.EventID slot = eventID) (map snd slotOrder))))) 0"
    by auto
  have "set recs = set (map (\<lambda>(k, slot). scoreSlot eventID (map snd availOrder)
                  (collectUsers eventID (map snd availOrder) {}) (userOrder k) slot)
            (filter (\<lambda>(k, slot). eligible event slot)
               (zip [0..<length (filter (\<lambda>slot. TimeSlot.EventID slot = eventID) (map snd slotOrder))]
                    (filter (\<lambda>slot. TimeSlot.EventID slot = eventID) (map snd slotOrder)))))"
    unfolding recs by (rule mset_eq_setD) (rule mset_sortOuter)
  with r obtain k slot where
    ks: "(k, slot) \<in> set (zip [0..<length (filter (\<lambda>slot. TimeSlot.EventID slot = eventID) (map snd slotOrder))]
                    (filter (\<lambda>slot. TimeSlot.EventID slot = eventID) (map snd slotOrder)))"
    and el: "eligible event slot"
    and req: "r = scoreSlot eventID (map snd availOrder)
                  (collectUsers eventID (map snd availOrder) {}) (userOrder k) slot"
    by auto
  from ks have "slot \<in> set (filter (\<lambda>slot. TimeSlot.EventID slot = eventID) (map snd slotOrder))"
    by (rule set_zip_rightD)
  then have "slot \<in> set (map snd slotOrder)" "TimeSlot.EventID slot = eventID"
    by simp_all
  with ev c el req show ?thesis by blast
qed

lemma scoreSlot_Finite:
  "card uniqueUsers \<noteq> 0 \<Longrightarrow>
   \<exists>x. AvailabilityPercentage (scoreSlot eventID avails uniqueUsers users slot) = Finite x"
  unfolding scoreSlot_def by (simp add: percentage_Finite)

lemma getRecommendations_allFinite:
  assumes "getRecommendations st eventID slotOrder availOrder userOrder = Inr recs"
  shows "allFinite recs"
  unfolding allFinite_def
proof
  fix r assume "r \<in> set recs"
  from getRecommendations_mem[OF assms this]
  show "\<exists>x. AvailabilityPercentage r = Finite x"
    by (auto simp: scoreSlot_Finite)
qed

lemma sortOuter_sorted_wrt:
  assumes "allFinite rs"
  shows "sorted_wrt (\<lambda>r r'. key r' \<le> key r) (sortOuter rs 0)"
  using sortOuter_descending[OF assms]
  by (simp add: sorted_wrt_iff_nth_less length_sortOuter)

lemma scoreSlot_sel:
  "TimeSlot (scoreSlot eventID avails uniqueUsers users slot) = slot"
  "AvailableUsers (scoreSlot eventID avails uniqueUsers users slot) =
     filter (\<lambda>u. isAvailable eventID u slot avails) users"
  "UnavailableUsers (scoreSlot eventID avails uniqueUsers users slot) =
     filter (\<lambda>u. \<not> isAvailable eventID u slot avails) users"
  "AvailabilityPercentage (scoreSlot eventID avails uniqueUsers users slot) =
     f_times100
       (f_div (float64_of_int (int (length (filter (\<lambda>u. isAvailable eventID u slot avails) users))))
              (float64_of_int (int (card uniqueUsers))))"
  by (simp_all add: scoreSlot_def)

lemma length_filter_partition:
  "length (filter P xs) + length (filter (\<lambda>x. \<not> P x) xs) = length xs"
  by (induction xs) auto

lemma validOrders_known:
  assumes "validOrders st eventID slotOrder availOrder userOrder"
  shows "collectUsers eventID (map snd availOrder) {} = knownUsers st eventID"
    and "set (userOrder k) = knownUsers st eventID"
    and "distinct (userOrder k)"
    and "length (userOrder k) = card (knownUsers st eventID)"
proof -
  have r: "ranges (userAvailability st) availOrder"
    and k: "rangesKeys (collectUsers eventID (map snd availOrder) {}) (userOrder k)"
    using assms by (simp_all add: validOrders_def)
  show c: "collectUsers eventID (map snd availOrder) {} = knownUsers st eventID"
    using collectUsers_ranges[OF r] by (simp add: knownUsers_def)
  show s: "set (userOrder k) = knownUsers st eventID"
    using k c by (simp add: rangesKeys_def)
  show d: "distinct (userOrder k)"
    using k by (simp add: rangesKeys_def)
  show "length (userOrder k) = card (knownUsers st eventID)"
    using distinct_card[OF d] s by simp
qed

lemma validOrders_isAvailable:
  assumes "validOrders st eventID slotOrder availOrder userOrder"
  shows "isAvailable eventID userID slot (map snd availOrder)
           \<longleftrightarrow> hasAvailableRecord st eventID userID (TimeSlot.ID slot)"
proof -
  have "ranges (userAvailability st) availOrder"
    using assms by (simp add: validOrders_def)
  then have "set (map snd availOrder) = ran (userAvailability st)"
    by (rule ranges_values)
  then show ?thesis
    by (simp add: isAvailable_iff hasAvailableRecord_def)
qed

text \<open>what the response says about one recommendation, in terms of the store\<close>
lemma getRecommendations_rec:
  assumes v: "validOrders st eventID slotOrder availOrder userOrder"
    and res: "getRecommendations st eventID slotOrder availOrder userOrder = Inr recs"
    and r: "r \<in> set recs"
  shows "\<exists>us. set us = knownUsers st eventID \<and> distinct us
      \<and> card (knownUsers st eventID) \<noteq> 0
      \<and> AvailableUsers r =
           filter (\<lambda>u. hasAvailableRecord st eventID u (TimeSlot.ID (TimeSlot r))) us
      \<and> UnavailableUsers r =
           filter (\<lambda>u. \<not> hasAvailableRecord st eventID u (TimeSlot.ID (TimeSlot r))) us
      \<and> AvailabilityPercentage r =
           f_times100 (f_div (float64_of_int (int (length (AvailableUsers r))))
                             (float64_of_int (int (card (knownUsers st eventID)))))"
proof -
  from getRecommendations_mem[OF res r] obtain event k slot where
    c: "card (collectUsers eventID (map snd availOrder) {}) \<noteq> 0"
    and req: "r = scoreSlot eventID (map snd availOrder)
                (collectUsers eventID (map snd availOrder) {}) (userOrder k) slot"
    by blast
  note av = validOrders_isAvailable[OF v]
  have "set (userOrder k) = knownUsers st eventID \<and> distinct (userOrder k)
      \<and> card (knownUsers st eventID) \<noteq> 0
      \<and> AvailableUsers r =
           filter (\<lambda>u. hasAvailableRecord st eventID u (TimeSlot.ID (TimeSlot r))) (userOrder k)
      \<and> UnavailableUsers r =
           filter (\<lambda>u. \<not> hasAvailableRecord st eventID u (TimeSlot.ID (TimeSlot r))) (userOrder k)
      \<and> AvailabilityPercentage r =
           f_times100 (f_div (float64_of_int (int (length (AvailableUsers r))))
                             (float64_of_int (int (card (knownUsers st eventID)))))"
    using c validOrders_known(1)[OF v] validOrders_known(2-4)[OF v, of k]
    by (simp add: req scoreSlot_sel av)
  then show ?thesis by blast
qed


lemma storeScenario_valid:
  "validOrders storeScenario ''e1'' [(''a'', slotA), (''b'', slotB)] scenarioRecords
     (\<lambda>i. [''u2'', ''u1'', ''u3''])"
  by (auto simp: validOrders_def ranges_def rangesKeys_def storeScenario_def scenarioRecords_def)

lemma storeScenario_eval:
  "getRecommendations storeScenario ''e1'' [(''a'', slotA), (''b'', slotB)] scenarioRecords
     (\<lambda>i. [''u2'', ''u1'', ''u3'']) = Inr [scenarioResult]"
  by (simp add: getRecommendations_def storeScenario_def event1_def slotA_def slotB_def
        scenarioRecords_def scenarioResult_def Minutes_eval round64_eval
        card_insert_if sortOuter.simps sortInner.simps)

lemma storeDup_valid:
  "validOrders storeDup ''e1'' [(''a'', slotA)] dupRecords (\<lambda>i. [''u1''])"
  by (auto simp: validOrders_def ranges_def rangesKeys_def storeDup_def dupRecords_def)

lemma storeDup_eval:
  "getRecommendations storeDup ''e1'' [(''a'', slotA)] dupRecords (\<lambda>i. [''u1''])
     = Inr [dupResult]"
  by (simp add: getRecommendations_def storeDup_def event1_def slotA_def
        dupRecords_def dupResult_def Minutes_eval round64_eval
        card_insert_if sortOuter.simps sortInner.simps)

lemma getRecommendations_success:
  "events st eventID = Some event \<Longrightarrow>
   \<exists>recs. getRecommendations st eventID slotOrder availOrder userOrder = Inr recs"
  by (simp add: getRecommendations_def Let_def)

lemma recView_scoreSlot:
  assumes v: "validOrders st eventID slotOrder availOrder userOrder"
    and c: "card (knownUsers st eventID) \<noteq> 0"
  shows "recView (scoreSlot eventID (map snd availOrder) (knownUsers st eventID) (userOrder k) slot)
     = slotView st eventID slot"
proof -
  note av = validOrders_isAvailable[OF v]
  have s: "set (userOrder k) = knownUsers st eventID" and d: "distinct (userOrder k)"
    using validOrders_known(2,3)[OF v, of k] by simp_all
  have l: "length (filter (\<lambda>u. hasAvailableRecord st eventID u (TimeSlot.ID slot)) (userOrder k))
      = card {u \<in> knownUsers st eventID. hasAvailableRecord st eventID u (TimeSlot.ID slot)}"
    using distinct_card[OF distinct_filter[OF d, of "\<lambda>u. hasAvailableRecord st eventID u (TimeSlot.ID slot)"]]
      s by (simp add: Collect_conj_eq Int_commute)
  show ?thesis
    using c s by (simp add: recView_def slotView_def scoreSlot_sel av l)
qed

lemma map_filter_indexed:
  "length ks = length xs \<Longrightarrow>
   map (\<lambda>(k, x). f x) (filter (\<lambda>(k, x). P x) (zip ks xs)) = map f (filter P xs)"
  by (induction ks xs rule: list_induct2) auto

text \<open>the response in terms of the store and of the multiset of slots the map yields\<close>
lemma outcome_getRecommendations:
  assumes v: "validOrders st eventID slotOrder availOrder userOrder"
    and ev: "events st eventID = Some event"
  shows "outcome (getRecommendations st eventID slotOrder availOrder userOrder) =
     Inr (if card (knownUsers st eventID) = 0 then {#}
          else image_mset (slotView st eventID)
                 (filter_mset (eligible event)
                    (filter_mset (\<lambda>slot. TimeSlot.EventID slot = eventID)
                       (image_mset snd (mset slotOrder)))))"
proof -
  let ?slots = "filter (\<lambda>slot. TimeSlot.EventID slot = eventID) (map snd slotOrder)"
  let ?U = "knownUsers st eventID"
  have U: "collectUsers eventID (map snd availOrder) {} = ?U"
    using validOrders_known(1)[OF v] .
  have m: "mset ?slots = filter_mset (\<lambda>slot. TimeSlot.EventID slot = eventID)
                       (image_mset snd (mset slotOrder))"
    by simp
  show ?thesis
  proof (cases "?slots = []")
    case True
    then have "getRecommendations st eventID slotOrder availOrder userOrder = Inr []"
      using ev by (simp add: getRecommendations_def eventSlotsOf_filter)
    moreover have "filter_mset (\<lambda>slot. TimeSlot.EventID slot = eventID)
                       (image_mset snd (mset slotOrder)) = {#}"
      using True m by simp
    ultimately show ?thesis by (simp only: outcome_def) simp
  next
    case ne: False
    show ?thesis
    proof (cases "card ?U = 0")
      case True
      then have "getRecommendations st eventID slotOrder availOrder userOrder = Inr []"
        using ev U by (simp add: getRecommendations_def Let_def)
      with True show ?thesis by (simp add: outcome_def)
    next
      case c: False
      let ?rs = "map (\<lambda>(k, slot). scoreSlot eventID (map snd availOrder) ?U (userOrder k) slot)
            (filter (\<lambda>(k, slot). eligible event slot) (zip [0..<length ?slots] ?slots))"
      have g: "getRecommendations st eventID slotOrder availOrder userOrder = Inr (sortOuter ?rs 0)"
        using ev U ne c
        by (simp add: getRecommendations_def eventSlotsOf_filter scoreSlots_eq Let_def)
      have "map recView ?rs =
          map (\<lambda>(k, slot). slotView st eventID slot)
            (filter (\<lambda>(k, slot). eligible event slot) (zip [0..<length ?slots] ?slots))"
        using recView_scoreSlot[OF v c] by (simp add: case_prod_unfold)
      also have "\<dots> = map (slotView st eventID) (filter (eligible event) ?slots)"
        by (rule map_filter_indexed) simp
      finally have eq: "map recView ?rs = map (slotView st eventID) (filter (eligible event) ?slots)" .
      have "outcome (getRecommendations st eventID slotOrder availOrder userOrder)
          = Inr (mset (map recView (sortOuter ?rs 0)))"
        by (simp only: g outcome_def map_sum.simps)
      also have "mset (map recView (sortOuter ?rs 0)) = mset (map recView ?rs)"
        using mset_sortOuter[of ?rs 0] by (metis mset_map)
      also have "\<dots> = mset (map (slotView st eventID) (filter (eligible event) ?slots))"
        by (simp only: eq)
      also have "\<dots> = image_mset (slotView st eventID) (filter_mset (eligible event) (mset ?slots))"
        by (simp only: mset_map mset_filter)
      also have "\<dots> = image_mset (slotView st eventID)
                 (filter_mset (eligible event)
                    (filter_mset (\<lambda>slot. TimeSlot.EventID slot = eventID)
                       (image_mset snd (mset slotOrder))))"
        by (simp only: m)
      finally show ?thesis
        using c by (simp only: if_False)
    qed
  qed
qed


lemma storeTie_valid_xy:
  "validOrders storeTie ''e1'' [(''x'', slotX), (''y'', slotY)]
     [(''r1'', availU1X), (''r2'', availU1Y)] (\<lambda>i. [''u1''])"
  by (auto simp: validOrders_def ranges_def rangesKeys_def storeTie_def availU1X_def availU1Y_def)

lemma storeTie_valid_yx:
  "validOrders storeTie ''e1'' [(''y'', slotY), (''x'', slotX)]
     [(''r2'', availU1Y), (''r1'', availU1X)] (\<lambda>i. [''u1''])"
  by (auto simp: validOrders_def ranges_def rangesKeys_def storeTie_def availU1X_def availU1Y_def)

lemma storeTie_eval_xy:
  "getRecommendations storeTie ''e1'' [(''x'', slotX), (''y'', slotY)]
     [(''r1'', availU1X), (''r2'', availU1Y)] (\<lambda>i. [''u1'']) = Inr [tieResultX, tieResultY]"
  by (simp add: getRecommendations_def storeTie_def event1_def slotX_def slotY_def
        availU1X_def availU1Y_def tieResultX_def tieResultY_def Minutes_eval
        round64_eval card_insert_if sortOuter.simps sortInner.simps)

lemma storeTie_eval_yx:
  "getRecommendations storeTie ''e1'' [(''y'', slotY), (''x'', slotX)]
     [(''r2'', availU1Y), (''r1'', availU1X)] (\<lambda>i. [''u1'']) = Inr [tieResultY, tieResultX]"
  by (simp add: getRecommendations_def storeTie_def event1_def slotX_def slotY_def
        availU1X_def availU1Y_def tieResultX_def tieResultY_def Minutes_eval
        round64_eval card_insert_if sortOuter.simps sortInner.simps)

lemma updateEvent_Inr:
  assumes "updateEvent st eventID b now = (Inr event, st')"
  shows "\<exists>old req. events st eventID = Some old \<and> b = Decoded req
     \<and> CreateEventRequest.Title req \<noteq> [] \<and> CreateEventRequest.OrganizerID req \<noteq> []
     \<and> CreateEventRequest.RequiredDuration req \<noteq> 0
     \<and> event = old\<lparr>Event.Title := CreateEventRequest.Title req,
                     Event.Description := CreateEventRequest.Description req,
                     Event.OrganizerID := CreateEventRequest.OrganizerID req,
                     Event.RequiredDuration := CreateEventRequest.RequiredDuration req,
                     Event.UpdatedAt := now\<rparr>
     \<and> st' = st\<lparr>events := (events st)(eventID \<mapsto> event)\<rparr>"
  using assms
  by (auto simp: updateEvent_def bindCreateEventRequest_def Let_def
           split: option.splits body.splits if_splits sum.splits)

lemma createUserAvailability_Inr:
  assumes "createUserAvailability st eventID userID b newID now = (Inr a, st')"
  shows "\<exists>req. b = Decoded req \<and> events st eventID \<noteq> None
     \<and> timeSlots st (UserAvailabilityRequest.TimeSlotID req) \<noteq> None
     \<and> a = \<lparr>UserAvailability.ID = newID, UserID = userID, EventID = eventID,
             TimeSlotID = UserAvailabilityRequest.TimeSlotID req,
             Status = UserAvailabilityRequest.Status req,
             CreatedAt = now, UpdatedAt = now\<rparr>
     \<and> st' = st\<lparr>userAvailability := (userAvailability st)(newID \<mapsto> a)\<rparr>"
  using assms
  by (auto simp: createUserAvailability_def bindUserAvailabilityRequest_def Let_def
           split: option.splits body.splits if_splits sum.splits)

section \<open>The claims\<close>

text \<open>
  C6. The recommendation handler fails, with NotFound, if and only if the event does not
  exist. If the event exists and no slot of the store belongs to it, or no availability
  record does, the response is the empty list as a success. No percentage in a response
  is the result of a division by zero: each is a finite number.
\<close>

theorem C6_NotFound_iff_missing_event_and_empty_success:
  assumes "validOrders st eventID slotOrder availOrder userOrder"
  shows "((\<exists>err. getRecommendations st eventID slotOrder availOrder userOrder = Inl err)
            \<longleftrightarrow> events st eventID = None)
    \<and> (events st eventID = None \<longrightarrow>
          getRecommendations st eventID slotOrder availOrder userOrder
            = Inl (NotFound ''Event not found''))
    \<and> (events st eventID \<noteq> None
          \<and> (\<forall>k slot. timeSlots st k = Some slot \<longrightarrow> TimeSlot.EventID slot \<noteq> eventID) \<longrightarrow>
          getRecommendations st eventID slotOrder availOrder userOrder = Inr [])
    \<and> (events st eventID \<noteq> None
          \<and> (\<forall>k a. userAvailability st k = Some a \<longrightarrow> UserAvailability.EventID a \<noteq> eventID) \<longrightarrow>
          getRecommendations st eventID slotOrder availOrder userOrder = Inr [])
    \<and> (\<forall>recs. getRecommendations st eventID slotOrder availOrder userOrder = Inr recs \<longrightarrow>
          (\<forall>r\<in>set recs. \<exists>x. AvailabilityPercentage r = Finite x))"
proof (intro conjI)
  show "(\<exists>err. getRecommendations st eventID slotOrder availOrder userOrder = Inl err)
            \<longleftrightarrow> events st eventID = None"
    by (auto simp: getRecommendations_def Let_def split: option.splits)
  show "events st eventID = None \<longrightarrow>
          getRecommendations st eventID slotOrder availOrder userOrder
            = Inl (NotFound ''Event not found'')"
    by (simp add: getRecommendations_def)
  show "events st eventID \<noteq> None
          \<and> (\<forall>k slot. timeSlots st k = Some slot \<longrightarrow> TimeSlot.EventID slot \<noteq> eventID) \<longrightarrow>
          getRecommendations st eventID slotOrder availOrder userOrder = Inr []"
  proof
    assume h: "events st eventID \<noteq> None
          \<and> (\<forall>k slot. timeSlots st k = Some slot \<longrightarrow> TimeSlot.EventID slot \<noteq> eventID)"
    have "ranges (timeSlots st) slotOrder"
      using assms by (simp add: validOrders_def)
    then have "set (map snd slotOrder) = ran (timeSlots st)"
      by (rule ranges_values)
    then have "\<forall>slot \<in> set (map snd slotOrder). TimeSlot.EventID slot \<noteq> eventID"
      using h unfolding ran_def by blast
    then have "filter (\<lambda>slot. TimeSlot.EventID slot = eventID) (map snd slotOrder) = []"
      by (simp add: filter_empty_conv)
    with h show "getRecommendations st eventID slotOrder availOrder userOrder = Inr []"
      by (auto simp: getRecommendations_def eventSlotsOf_filter)
  qed
  show "events st eventID \<noteq> None
          \<and> (\<forall>k a. userAvailability st k = Some a \<longrightarrow> UserAvailability.EventID a \<noteq> eventID) \<longrightarrow>
          getRecommendations st eventID slotOrder availOrder userOrder = Inr []"
  proof
    assume h: "events st eventID \<noteq> None
          \<and> (\<forall>k a. userAvailability st k = Some a \<longrightarrow> UserAvailability.EventID a \<noteq> eventID)"
    have "ranges (userAvailability st) availOrder"
      using assms by (simp add: validOrders_def)
    then have "collectUsers eventID (map snd availOrder) {} =
        {UserAvailability.UserID a | a. a \<in> ran (userAvailability st) \<and> UserAvailability.EventID a = eventID}"
      by (rule collectUsers_ranges)
    also have "\<dots> = {}"
      using h unfolding ran_def by blast
    finally have "collectUsers eventID (map snd availOrder) {} = {}" .
    with h show "getRecommendations st eventID slotOrder availOrder userOrder = Inr []"
      by (auto simp: getRecommendations_def Let_def)
  qed
  show "\<forall>recs. getRecommendations st eventID slotOrder availOrder userOrder = Inr recs \<longrightarrow>
          (\<forall>r\<in>set recs. \<exists>x. AvailabilityPercentage r = Finite x)"
  proof (intro allI impI ballI)
    fix recs r
    assume "getRecommendations st eventID slotOrder availOrder userOrder = Inr recs"
      and "r \<in> set recs"
    from getRecommendations_mem[OF this]
    show "\<exists>x. AvailabilityPercentage r = Finite x"
      by (auto simp: scoreSlot_Finite)
  qed
qed

text \<open>The witness: an event with one slot and no respondent, and an unknown event.\<close>

theorem C6_witness:
  "validOrders storeNoRespondents ''e1'' [(''a'', slotA)] [] (\<lambda>i. [])
   \<and> events storeNoRespondents ''e1'' \<noteq> None
   \<and> userAvailability storeNoRespondents = Map.empty
   \<and> getRecommendations storeNoRespondents ''e1'' [(''a'', slotA)] [] (\<lambda>i. []) = Inr []
   \<and> events storeNoRespondents ''zz'' = None
   \<and> getRecommendations storeNoRespondents ''zz'' [(''a'', slotA)] [] (\<lambda>i. [])
        = Inl (NotFound ''Event not found'')"
proof -
  have v1: "validOrders storeNoRespondents ''e1'' [(''a'', slotA)] [] (\<lambda>i. [])"
    by (simp add: validOrders_def ranges_def rangesKeys_def storeNoRespondents_def)
  have v2: "validOrders storeNoRespondents ''zz'' [(''a'', slotA)] [] (\<lambda>i. [])"
    by (simp add: validOrders_def ranges_def rangesKeys_def storeNoRespondents_def)
  have e1: "events storeNoRespondents ''e1'' \<noteq> None"
    by (simp add: storeNoRespondents_def)
  have e2: "events storeNoRespondents ''zz'' = None"
    by (simp add: storeNoRespondents_def)
  have n: "\<forall>k a. userAvailability storeNoRespondents k = Some a \<longrightarrow> UserAvailability.EventID a \<noteq> ''e1''"
    by (simp add: storeNoRespondents_def)
  have m: "userAvailability storeNoRespondents = Map.empty"
    by (simp add: storeNoRespondents_def)
  show ?thesis
    using C6_NotFound_iff_missing_event_and_empty_success[OF v1]
      C6_NotFound_iff_missing_event_and_empty_success[OF v2] v1 e1 e2 n m
    by simp
qed

text \<open>
  C1, as amended. The list in a successful response is sorted in descending order of
  availability percentage (every percentage being finite). Among recommendations of
  equal percentage the handler compares nothing else, so no order by start time holds
  among them.
\<close>

theorem C1_sorted_by_descending_percentage:
  assumes "getRecommendations st eventID slotOrder availOrder userOrder = Inr recs"
  shows "descendingByPercentage recs"
proof -
  have fin: "allFinite recs"
    using assms by (rule getRecommendations_allFinite)
  from getRecommendations_Inr[OF assms] obtain rs where "recs = [] \<or> recs = sortOuter rs 0"
    by blast
  then show ?thesis
  proof
    assume "recs = []"
    then show ?thesis by (simp add: descendingByPercentage_def allFinite_def)
  next
    assume recs: "recs = sortOuter rs 0"
    have "allFinite rs"
      using fin allFinite_mset[of recs rs] by (simp add: recs mset_sortOuter)
    then have "sorted_wrt (\<lambda>r r'. key r' \<le> key r) (sortOuter rs 0)"
      by (rule sortOuter_sorted_wrt)
    with fin recs show ?thesis by (simp add: descendingByPercentage_def)
  qed
qed

text \<open>
  The witness: two slots yielded with the 50 percent slot first; the sort exchanges them.
\<close>

lemma storeRanked_eval:
  "getRecommendations storeRanked ''e1'' [(''a'', slotA), (''c'', slotC)] rankedRecords
       (\<lambda>i. [''u1'', ''u2'']) =
     Inr [\<lparr>TimeSlot = slotC, AvailableUsers = [''u1'', ''u2''], UnavailableUsers = [],
            AvailabilityPercentage = Finite 100\<rparr>,
          \<lparr>TimeSlot = slotA, AvailableUsers = [''u1''], UnavailableUsers = [''u2''],
            AvailabilityPercentage = Finite 50\<rparr>]"
  by (simp add: getRecommendations_def storeRanked_def event1_def slotA_def slotC_def
        rankedRecords_def Minutes_eval round64_eval
        card_insert_if sortOuter.simps sortInner.simps)

theorem C1_witness:
  "getRecommendations storeRanked ''e1'' [(''a'', slotA), (''c'', slotC)] rankedRecords
       (\<lambda>i. [''u1'', ''u2'']) =
     Inr [\<lparr>TimeSlot = slotC, AvailableUsers = [''u1'', ''u2''], UnavailableUsers = [],
            AvailabilityPercentage = Finite 100\<rparr>,
          \<lparr>TimeSlot = slotA, AvailableUsers = [''u1''], UnavailableUsers = [''u2''],
            AvailabilityPercentage = Finite 50\<rparr>]
   \<and> descendingByPercentage
        [\<lparr>TimeSlot = slotC, AvailableUsers = [''u1'', ''u2''], UnavailableUsers = [],
            AvailabilityPercentage = Finite 100\<rparr>,
          \<lparr>TimeSlot = slotA, AvailableUsers = [''u1''], UnavailableUsers = [''u2''],
            AvailabilityPercentage = Finite 50\<rparr>]"
  using C1_sorted_by_descending_percentage[OF storeRanked_eval] storeRanked_eval by simp

text \<open>
  The counterexample to C1 as stated: two slots at 100 percent, the map yielding the
  later one first; the response lists the later slot before the earlier one.
\<close>

theorem C1_counterexample:
  "validOrders storeTie ''e1'' [(''y'', slotY), (''x'', slotX)]
       [(''r1'', availU1X), (''r2'', availU1Y)] (\<lambda>i. [''u1''])
   \<and> getRecommendations storeTie ''e1'' [(''y'', slotY), (''x'', slotX)]
       [(''r1'', availU1X), (''r2'', availU1Y)] (\<lambda>i. [''u1'']) =
     Inr [\<lparr>TimeSlot = slotY, AvailableUsers = [''u1''], UnavailableUsers = [],
            AvailabilityPercentage = Finite 100\<rparr>,
          \<lparr>TimeSlot = slotX, AvailableUsers = [''u1''], UnavailableUsers = [],
            AvailabilityPercentage = Finite 100\<rparr>]
   \<and> \<not> tiesByStartTime
        [\<lparr>TimeSlot = slotY, AvailableUsers = [''u1''], UnavailableUsers = [],
            AvailabilityPercentage = Finite 100\<rparr>,
          \<lparr>TimeSlot = slotX, AvailableUsers = [''u1''], UnavailableUsers = [],
            AvailabilityPercentage = Finite 100\<rparr>]"
proof (intro conjI)
  show "validOrders storeTie ''e1'' [(''y'', slotY), (''x'', slotX)]
       [(''r1'', availU1X), (''r2'', availU1Y)] (\<lambda>i. [''u1''])"
    by (auto simp: validOrders_def ranges_def rangesKeys_def storeTie_def availU1X_def availU1Y_def)
  show "getRecommendations storeTie ''e1'' [(''y'', slotY), (''x'', slotX)]
       [(''r1'', availU1X), (''r2'', availU1Y)] (\<lambda>i. [''u1'']) =
     Inr [\<lparr>TimeSlot = slotY, AvailableUsers = [''u1''], UnavailableUsers = [],
            AvailabilityPercentage = Finite 100\<rparr>,
          \<lparr>TimeSlot = slotX, AvailableUsers = [''u1''], UnavailableUsers = [],
            AvailabilityPercentage = Finite 100\<rparr>]"
    by (simp add: getRecommendations_def storeTie_def event1_def slotX_def slotY_def
        availU1X_def availU1Y_def Minutes_eval round64_eval
        card_insert_if sortOuter.simps sortInner.simps)
  show "\<not> tiesByStartTime
        [\<lparr>TimeSlot = slotY, AvailableUsers = [''u1''], UnavailableUsers = [],
            AvailabilityPercentage = Finite 100\<rparr>,
          \<lparr>TimeSlot = slotX, AvailableUsers = [''u1''], UnavailableUsers = [],
            AvailabilityPercentage = Finite 100\<rparr>]"
    by (simp add: tiesByStartTime_def slotX_def slotY_def)
qed

text \<open>
  C2. In every recommendation of a response, the available and the unavailable users
  together are exactly the users with some availability record for the event, no user is
  in both lists, a user is listed as available exactly when the user is known and some record
  matching (event, user, slot) says \<open>available\<close>, and as unavailable exactly when the user is
  known and no such record exists.
\<close>

theorem C2_partition_of_known_users:
  assumes "validOrders st eventID slotOrder availOrder userOrder"
    and "getRecommendations st eventID slotOrder availOrder userOrder = Inr recs"
    and "r \<in> set recs"
  shows "set (AvailableUsers r) \<union> set (UnavailableUsers r) = knownUsers st eventID
    \<and> set (AvailableUsers r) \<inter> set (UnavailableUsers r) = {}
    \<and> (\<forall>u. u \<in> set (AvailableUsers r) \<longleftrightarrow>
          u \<in> knownUsers st eventID
          \<and> hasAvailableRecord st eventID u (TimeSlot.ID (TimeSlot r)))
    \<and> (\<forall>u. u \<in> set (UnavailableUsers r) \<longleftrightarrow>
          u \<in> knownUsers st eventID
          \<and> \<not> hasAvailableRecord st eventID u (TimeSlot.ID (TimeSlot r)))
    \<and> (\<forall>u. hasAvailableRecord st eventID u (TimeSlot.ID (TimeSlot r)) \<longrightarrow>
          u \<in> knownUsers st eventID)"
proof -
  from getRecommendations_rec[OF assms] obtain us where
    us: "set us = knownUsers st eventID"
    and a: "AvailableUsers r =
           filter (\<lambda>u. hasAvailableRecord st eventID u (TimeSlot.ID (TimeSlot r))) us"
    and u: "UnavailableUsers r =
           filter (\<lambda>u. \<not> hasAvailableRecord st eventID u (TimeSlot.ID (TimeSlot r))) us"
    by blast
  have k: "hasAvailableRecord st eventID u s \<Longrightarrow> u \<in> knownUsers st eventID" for u s
    by (auto simp: hasAvailableRecord_def knownUsers_def)
  show ?thesis
    unfolding a u using us k by auto
qed


text \<open>
  The witness: the scenario store, where \<open>u4\<close> has a record for another event only.
\<close>

theorem C2_witness:
  "validOrders storeScenario ''e1'' [(''a'', slotA), (''b'', slotB)] scenarioRecords
     (\<lambda>i. [''u2'', ''u1'', ''u3''])
   \<and> getRecommendations storeScenario ''e1'' [(''a'', slotA), (''b'', slotB)] scenarioRecords
       (\<lambda>i. [''u2'', ''u1'', ''u3'']) = Inr [scenarioResult]
   \<and> scenarioResult \<in> set [scenarioResult]
   \<and> AvailableUsers scenarioResult = [''u2'', ''u1'']
   \<and> UnavailableUsers scenarioResult = [''u3'']
   \<and> knownUsers storeScenario ''e1'' = {''u1'', ''u2'', ''u3''}
   \<and> hasAvailableRecord storeScenario ''e1'' ''u1'' ''a''
   \<and> \<not> hasAvailableRecord storeScenario ''e1'' ''u3'' ''a''"
proof -
  have m: "scenarioResult \<in> set [scenarioResult]" by simp
  note th = C2_partition_of_known_users[OF storeScenario_valid storeScenario_eval m]
  have sel: "AvailableUsers scenarioResult = [''u2'', ''u1'']"
    "UnavailableUsers scenarioResult = [''u3'']" "TimeSlot.ID (TimeSlot scenarioResult) = ''a''"
    by (simp_all add: scenarioResult_def slotA_def)
  have "knownUsers storeScenario ''e1'' = set [''u2'', ''u1''] \<union> set [''u3'']"
    using th[THEN conjunct1] by (simp only: sel)
  then have k: "knownUsers storeScenario ''e1'' = {''u1'', ''u2'', ''u3''}"
    by auto
  have "''u1'' \<in> set (AvailableUsers scenarioResult) \<longleftrightarrow>
      ''u1'' \<in> knownUsers storeScenario ''e1''
      \<and> hasAvailableRecord storeScenario ''e1'' ''u1'' (TimeSlot.ID (TimeSlot scenarioResult))"
    using th[THEN conjunct2, THEN conjunct2, THEN conjunct1] by (rule spec)
  then have a: "hasAvailableRecord storeScenario ''e1'' ''u1'' ''a''"
    by (simp add: sel)
  have "''u3'' \<in> set (UnavailableUsers scenarioResult) \<longleftrightarrow>
      ''u3'' \<in> knownUsers storeScenario ''e1''
      \<and> \<not> hasAvailableRecord storeScenario ''e1'' ''u3'' (TimeSlot.ID (TimeSlot scenarioResult))"
    using th[THEN conjunct2, THEN conjunct2, THEN conjunct2, THEN conjunct1] by (rule spec)
  then have u: "\<not> hasAvailableRecord storeScenario ''e1'' ''u3'' ''a''"
    by (simp add: sel)
  show ?thesis
    using storeScenario_valid storeScenario_eval k a u sel by simp
qed

text \<open>
  C3, as amended. When two records exist for the same (user, event, slot), the user is
  listed as available as soon as one of them says \<open>available\<close>, whatever the other
  one says and whenever either was updated: the handler never reads the update times.
\<close>

theorem C3_any_available_record_wins:
  assumes "validOrders st eventID slotOrder availOrder userOrder"
    and "getRecommendations st eventID slotOrder availOrder userOrder = Inr recs"
    and "r \<in> set recs"
    and "userAvailability st k = Some a" and "userAvailability st k' = Some a'" and "k \<noteq> k'"
    and "UserAvailability.EventID a = eventID" and "UserAvailability.UserID a = userID"
    and "UserAvailability.TimeSlotID a = TimeSlot.ID (TimeSlot r)"
    and "UserAvailability.EventID a' = eventID" and "UserAvailability.UserID a' = userID"
    and "UserAvailability.TimeSlotID a' = TimeSlot.ID (TimeSlot r)"
    and "UserAvailability.Status a = ''available''"
  shows "userID \<in> set (AvailableUsers r) \<and> userID \<notin> set (UnavailableUsers r)"
proof -
  from getRecommendations_rec[OF assms(1-3)] obtain us where
    us: "set us = knownUsers st eventID"
    and av: "AvailableUsers r =
           filter (\<lambda>u. hasAvailableRecord st eventID u (TimeSlot.ID (TimeSlot r))) us"
    and un: "UnavailableUsers r =
           filter (\<lambda>u. \<not> hasAvailableRecord st eventID u (TimeSlot.ID (TimeSlot r))) us"
    by blast
  have "a \<in> ran (userAvailability st)"
    using assms(4) by (rule ranI)
  then have "hasAvailableRecord st eventID userID (TimeSlot.ID (TimeSlot r))"
    and "userID \<in> knownUsers st eventID"
    using assms(7,8,9,13) by (auto simp: hasAvailableRecord_def knownUsers_def)
  then show ?thesis
    unfolding av un using us by simp
qed

text \<open>
  The witness: the newer of the two records says \<open>unavailable\<close>, the user is listed
  as available.
\<close>

theorem C3_witness:
  "validOrders storeDup ''e1'' [(''a'', slotA)] dupRecords (\<lambda>i. [''u1''])
   \<and> getRecommendations storeDup ''e1'' [(''a'', slotA)] dupRecords (\<lambda>i. [''u1''])
        = Inr [dupResult]
   \<and> userAvailability storeDup ''d1'' = Some (snd (dupRecords ! 0))
   \<and> userAvailability storeDup ''d2'' = Some (snd (dupRecords ! 1))
   \<and> UserAvailability.Status (snd (dupRecords ! 0)) = ''available''
   \<and> UserAvailability.Status (snd (dupRecords ! 1)) = ''unavailable''
   \<and> UserAvailability.UpdatedAt (snd (dupRecords ! 0)) < UserAvailability.UpdatedAt (snd (dupRecords ! 1))
   \<and> ''u1'' \<in> set (AvailableUsers dupResult) \<and> ''u1'' \<notin> set (UnavailableUsers dupResult)"
proof -
  have m: "dupResult \<in> set [dupResult]" by simp
  have d1: "userAvailability storeDup ''d1'' = Some (snd (dupRecords ! 0))"
    and d2: "userAvailability storeDup ''d2'' = Some (snd (dupRecords ! 1))"
    by (simp_all add: storeDup_def dupRecords_def)
  have "''u1'' \<in> set (AvailableUsers dupResult) \<and> ''u1'' \<notin> set (UnavailableUsers dupResult)"
    by (rule C3_any_available_record_wins[OF storeDup_valid storeDup_eval m d1 d2])
       (simp_all add: dupRecords_def dupResult_def slotA_def)
  then show ?thesis
    using storeDup_valid storeDup_eval d1 d2 by (simp add: dupRecords_def)
qed

text \<open>
  The counterexample to C3 as stated: in the same store the latest record for
  (\<open>e1\<close>, \<open>u1\<close>, \<open>a\<close>) does not say \<open>available\<close>, and \<open>u1\<close> is listed as
  available for slot \<open>a\<close>.
\<close>

theorem C3_counterexample:
  "validOrders storeDup ''e1'' [(''a'', slotA)] dupRecords (\<lambda>i. [''u1''])
   \<and> getRecommendations storeDup ''e1'' [(''a'', slotA)] dupRecords (\<lambda>i. [''u1''])
        = Inr [dupResult]
   \<and> TimeSlot.ID (TimeSlot dupResult) = ''a''
   \<and> ''u1'' \<in> set (AvailableUsers dupResult)
   \<and> \<not> latestRecordAvailable storeDup ''e1'' ''u1'' ''a''"
proof -
  have "\<not> latestRecordAvailable storeDup ''e1'' ''u1'' ''a''"
    by (simp add: latestRecordAvailable_def storeDup_def dupRecords_def)
  then show ?thesis
    using storeDup_valid storeDup_eval by (simp add: dupResult_def slotA_def)
qed

text \<open>
  C4, at an input where the handler departs from it. The event needs 300000 minutes, the
  slot lasts 300000 minutes less one nanosecond. \<open>Minutes()\<close> adds 299999 and the
  fraction 59999999999/6e10 in \<open>float64\<close>, which rounds to 300000, so the test of line
  428 does not skip the slot and the response recommends it.
\<close>

theorem C4_failing_input:
  "events storeLong ''e3'' = Some eventLong
   \<and> timeSlots storeLong ''l'' = Some slotLong
   \<and> Event.RequiredDuration eventLong = 300000
   \<and> TimeSlot.StartTime slotLong \<le> TimeSlot.EndTime slotLong
   \<and> slotMinutes slotLong < real_of_int (Event.RequiredDuration eventLong)
   \<and> Minutes (Sub (TimeSlot.EndTime slotLong) (TimeSlot.StartTime slotLong)) = Finite 300000
   \<and> validOrders storeLong ''e3'' [(''l'', slotLong)] [(''r1'', availLong)] (\<lambda>i. [''u1''])
   \<and> getRecommendations storeLong ''e3'' [(''l'', slotLong)] [(''r1'', availLong)]
        (\<lambda>i. [''u1'']) = Inr [longResult]
   \<and> TimeSlot longResult = slotLong"
proof -
  have m: "Minutes (Sub (TimeSlot.EndTime slotLong) (TimeSlot.StartTime slotLong)) = Finite 300000"
    by (simp add: slotLong_def Minutes_eval round64_eval)
  have v: "validOrders storeLong ''e3'' [(''l'', slotLong)] [(''r1'', availLong)] (\<lambda>i. [''u1''])"
    by (auto simp: validOrders_def ranges_def rangesKeys_def storeLong_def availLong_def)
  have g: "getRecommendations storeLong ''e3'' [(''l'', slotLong)] [(''r1'', availLong)]
        (\<lambda>i. [''u1'']) = Inr [longResult]"
    by (simp add: getRecommendations_def storeLong_def eventLong_def slotLong_def availLong_def
          longResult_def Minutes_eval round64_eval card_insert_if sortOuter.simps sortInner.simps)
  have d: "slotMinutes slotLong < real_of_int (Event.RequiredDuration eventLong)"
    by (simp add: slotMinutes_def slotLong_def eventLong_def)
  have e: "events storeLong ''e3'' = Some eventLong" "timeSlots storeLong ''l'' = Some slotLong"
    by (simp_all add: storeLong_def)
  have f: "Event.RequiredDuration eventLong = 300000"
    "TimeSlot.StartTime slotLong \<le> TimeSlot.EndTime slotLong" "TimeSlot longResult = slotLong"
    by (simp_all add: eventLong_def slotLong_def longResult_def)
  show ?thesis
    using m v g d e f by (intro conjI)
qed

text \<open>
  C5, as amended. In every recommendation of a response the percentage is the
  \<open>float64\<close> result of dividing the number of available users by the number of
  available and unavailable users and multiplying by 100, each step rounded to the
  nearest binary64 number and none to an integer; the divisor is positive, and the
  percentage differs from the exact ratio times 100 by at most that value over 2^50.
\<close>

theorem C5_percentage_is_the_float64_ratio:
  assumes "validOrders st eventID slotOrder availOrder userOrder"
    and "getRecommendations st eventID slotOrder availOrder userOrder = Inr recs"
    and "r \<in> set recs"
  shows "0 < length (AvailableUsers r) + length (UnavailableUsers r)
    \<and> AvailabilityPercentage r =
        f_times100
          (f_div (float64_of_int (int (length (AvailableUsers r))))
                 (float64_of_int (int (length (AvailableUsers r) + length (UnavailableUsers r)))))
    \<and> (\<exists>v. AvailabilityPercentage r = Finite v
          \<and> \<bar>v - real (length (AvailableUsers r))
                    / real (length (AvailableUsers r) + length (UnavailableUsers r)) * 100\<bar>
              \<le> real (length (AvailableUsers r))
                    / real (length (AvailableUsers r) + length (UnavailableUsers r)) * 100 / 2 ^ 50)"
proof -
  from getRecommendations_rec[OF assms] obtain us where
    us: "set us = knownUsers st eventID" "distinct us"
    and c: "card (knownUsers st eventID) \<noteq> 0"
    and av: "AvailableUsers r =
           filter (\<lambda>u. hasAvailableRecord st eventID u (TimeSlot.ID (TimeSlot r))) us"
    and un: "UnavailableUsers r =
           filter (\<lambda>u. \<not> hasAvailableRecord st eventID u (TimeSlot.ID (TimeSlot r))) us"
    and p: "AvailabilityPercentage r =
           f_times100 (f_div (float64_of_int (int (length (AvailableUsers r))))
                             (float64_of_int (int (card (knownUsers st eventID)))))"
    by blast
  have "length (AvailableUsers r) + length (UnavailableUsers r) = length us"
    unfolding av un by (rule length_filter_partition)
  also have "\<dots> = card (knownUsers st eventID)"
    using distinct_card[OF us(2)] us(1) by simp
  finally have n: "length (AvailableUsers r) + length (UnavailableUsers r) = card (knownUsers st eventID)" .
  have pos: "0 < length (AvailableUsers r) + length (UnavailableUsers r)"
    using c n by simp
  have eq: "AvailabilityPercentage r =
        f_times100
          (f_div (float64_of_int (int (length (AvailableUsers r))))
                 (float64_of_int (int (length (AvailableUsers r) + length (UnavailableUsers r)))))"
    using p by (simp only: n)
  have "\<exists>v. AvailabilityPercentage r = Finite v
          \<and> \<bar>v - real (length (AvailableUsers r))
                    / real (length (AvailableUsers r) + length (UnavailableUsers r)) * 100\<bar>
              \<le> real (length (AvailableUsers r))
                    / real (length (AvailableUsers r) + length (UnavailableUsers r)) * 100 / 2 ^ 50"
    unfolding eq percentage_value[OF pos] using ratio_error[OF pos] by blast
  with pos eq show ?thesis by blast
qed

text \<open>
  The witness: two of three known users available gives 66.66666666666666..., the
  binary64 number 2345624805922133 / 2^45, neither 66 nor 67.
\<close>

theorem C5_witness:
  "validOrders storeScenario ''e1'' [(''a'', slotA), (''b'', slotB)] scenarioRecords
     (\<lambda>i. [''u2'', ''u1'', ''u3''])
   \<and> getRecommendations storeScenario ''e1'' [(''a'', slotA), (''b'', slotB)] scenarioRecords
       (\<lambda>i. [''u2'', ''u1'', ''u3'']) = Inr [scenarioResult]
   \<and> length (AvailableUsers scenarioResult) = 2
   \<and> length (UnavailableUsers scenarioResult) = 1
   \<and> AvailabilityPercentage scenarioResult
       = f_times100 (f_div (float64_of_int 2) (float64_of_int (2 + 1)))
   \<and> AvailabilityPercentage scenarioResult = Finite (2345624805922133 / 2 ^ 45)
   \<and> \<bar>2345624805922133 / 2 ^ 45 - 2 / (2 + 1) * 100 :: real\<bar> \<le> 2 / (2 + 1) * 100 / 2 ^ 50
   \<and> AvailabilityPercentage scenarioResult \<noteq> Finite 66
   \<and> AvailabilityPercentage scenarioResult \<noteq> Finite 67"
proof -
  have m: "scenarioResult \<in> set [scenarioResult]" by simp
  have l: "length (AvailableUsers scenarioResult) = 2" "length (UnavailableUsers scenarioResult) = 1"
    by (simp_all add: scenarioResult_def)
  have p: "AvailabilityPercentage scenarioResult
       = f_times100 (f_div (float64_of_int 2) (float64_of_int (2 + 1)))"
    using C5_percentage_is_the_float64_ratio[OF storeScenario_valid storeScenario_eval m]
    by (simp add: l)
  have q: "AvailabilityPercentage scenarioResult = Finite (2345624805922133 / 2 ^ 45)"
    "AvailabilityPercentage scenarioResult \<noteq> Finite 66"
    "AvailabilityPercentage scenarioResult \<noteq> Finite 67"
    by (simp_all add: scenarioResult_def)
  have b: "\<bar>2345624805922133 / 2 ^ 45 - 2 / (2 + 1) * 100 :: real\<bar> \<le> 2 / (2 + 1) * 100 / 2 ^ 50"
    by simp
  show ?thesis
    using storeScenario_valid storeScenario_eval l p q b by (intro conjI)
qed

text \<open>
  The counterexample to C5 as stated: in the same response the percentage is not the
  real number 2 / (2 + 1) * 100.
\<close>

theorem C5_counterexample:
  "validOrders storeScenario ''e1'' [(''a'', slotA), (''b'', slotB)] scenarioRecords
     (\<lambda>i. [''u2'', ''u1'', ''u3''])
   \<and> getRecommendations storeScenario ''e1'' [(''a'', slotA), (''b'', slotB)] scenarioRecords
       (\<lambda>i. [''u2'', ''u1'', ''u3'']) = Inr [scenarioResult]
   \<and> length (AvailableUsers scenarioResult) = 2
   \<and> length (UnavailableUsers scenarioResult) = 1
   \<and> AvailabilityPercentage scenarioResult \<noteq> Finite (2 / (2 + 1) * 100)"
  using storeScenario_valid storeScenario_eval by (simp add: scenarioResult_def)

text \<open>
  C7, as amended. Two runs of the handler on the same store, each with its own iteration
  orders of the three maps, give the same outcome up to order: both fail with NotFound,
  or both succeed with the same recommendations counted with multiplicity, each with the
  same slot, the same percentage and the same sets of available and of unavailable
  users. The order of recommendations of equal percentage and the order of the users
  inside the two lists may differ between the runs.
\<close>

theorem C7_same_outcome_up_to_order:
  assumes "validOrders st eventID slotOrder availOrder userOrder"
    and "validOrders st eventID slotOrder' availOrder' userOrder'"
  shows "outcome (getRecommendations st eventID slotOrder availOrder userOrder)
       = outcome (getRecommendations st eventID slotOrder' availOrder' userOrder')"
proof (cases "events st eventID")
  case None
  then show ?thesis by (simp add: getRecommendations_def)
next
  case (Some event)
  have "ranges (timeSlots st) slotOrder" "ranges (timeSlots st) slotOrder'"
    using assms by (simp_all add: validOrders_def)
  then have "mset slotOrder = mset slotOrder'"
    by (rule ranges_mset)
  then show ?thesis
    by (simp add: outcome_getRecommendations[OF assms(1) Some]
          outcome_getRecommendations[OF assms(2) Some])
qed


text \<open>
  The witness: the store with two slots at 100 percent, run with the slot map yielding
  \<open>x\<close> first and with it yielding \<open>y\<close> first.
\<close>

theorem C7_witness:
  "validOrders storeTie ''e1'' [(''x'', slotX), (''y'', slotY)]
     [(''r1'', availU1X), (''r2'', availU1Y)] (\<lambda>i. [''u1''])
   \<and> validOrders storeTie ''e1'' [(''y'', slotY), (''x'', slotX)]
     [(''r2'', availU1Y), (''r1'', availU1X)] (\<lambda>i. [''u1''])
   \<and> outcome (getRecommendations storeTie ''e1'' [(''x'', slotX), (''y'', slotY)]
        [(''r1'', availU1X), (''r2'', availU1Y)] (\<lambda>i. [''u1'']))
     = outcome (getRecommendations storeTie ''e1'' [(''y'', slotY), (''x'', slotX)]
        [(''r2'', availU1Y), (''r1'', availU1X)] (\<lambda>i. [''u1'']))
   \<and> outcome (Inr [tieResultX, tieResultY]) = outcome (Inr [tieResultY, tieResultX])"
  using C7_same_outcome_up_to_order[OF storeTie_valid_xy storeTie_valid_yx]
    storeTie_valid_xy storeTie_valid_yx
  by (simp add: storeTie_eval_xy storeTie_eval_yx)

text \<open>
  The counterexample to C7 as stated: the same two runs on the same store give two
  different lists.
\<close>

theorem C7_counterexample:
  "validOrders storeTie ''e1'' [(''x'', slotX), (''y'', slotY)]
     [(''r1'', availU1X), (''r2'', availU1Y)] (\<lambda>i. [''u1''])
   \<and> validOrders storeTie ''e1'' [(''y'', slotY), (''x'', slotX)]
     [(''r2'', availU1Y), (''r1'', availU1X)] (\<lambda>i. [''u1''])
   \<and> getRecommendations storeTie ''e1'' [(''x'', slotX), (''y'', slotY)]
        [(''r1'', availU1X), (''r2'', availU1Y)] (\<lambda>i. [''u1''])
     \<noteq> getRecommendations storeTie ''e1'' [(''y'', slotY), (''x'', slotX)]
        [(''r2'', availU1Y), (''r1'', availU1X)] (\<lambda>i. [''u1''])"
proof -
  have "tieResultX \<noteq> tieResultY"
    by (simp add: tieResultX_def tieResultY_def slotX_def slotY_def)
  then show ?thesis
    using storeTie_valid_xy storeTie_valid_yx
    by (simp add: storeTie_eval_xy storeTie_eval_yx)
qed

text \<open>
  C8, as amended. A successful update of an event leaves its identifier, its status and
  its creation time as they were, sets title, description, organizer identifier and
  required duration from the request and the update time from the clock, and changes
  nothing else in the store. Every request with a non-empty title, a non-empty organizer
  identifier and a non-zero duration succeeds on an existing event. The status is not
  mutable via the update operation.
\<close>

theorem C8_update_keeps_identifier_and_status:
  assumes "events st eventID = Some old"
  shows "(\<forall>event st'. updateEvent st eventID b now = (Inr event, st') \<longrightarrow>
            Event.ID event = Event.ID old \<and> Event.Status event = Event.Status old
            \<and> Event.CreatedAt event = Event.CreatedAt old \<and> Event.UpdatedAt event = now
            \<and> events st' = (events st)(eventID \<mapsto> event)
            \<and> timeSlots st' = timeSlots st \<and> userAvailability st' = userAvailability st)
    \<and> (\<forall>req. b = Decoded req \<and> CreateEventRequest.Title req \<noteq> []
            \<and> CreateEventRequest.OrganizerID req \<noteq> []
            \<and> CreateEventRequest.RequiredDuration req \<noteq> 0 \<longrightarrow>
          (\<exists>event st'. updateEvent st eventID b now = (Inr event, st')
             \<and> Event.Title event = CreateEventRequest.Title req
             \<and> Event.Description event = CreateEventRequest.Description req
             \<and> Event.OrganizerID event = CreateEventRequest.OrganizerID req
             \<and> Event.RequiredDuration event = CreateEventRequest.RequiredDuration req))"
proof (rule conjI)
  show "\<forall>event st'. updateEvent st eventID b now = (Inr event, st') \<longrightarrow>
            Event.ID event = Event.ID old \<and> Event.Status event = Event.Status old
            \<and> Event.CreatedAt event = Event.CreatedAt old \<and> Event.UpdatedAt event = now
            \<and> events st' = (events st)(eventID \<mapsto> event)
            \<and> timeSlots st' = timeSlots st \<and> userAvailability st' = userAvailability st"
  proof (intro allI impI)
    fix event st'
    assume "updateEvent st eventID b now = (Inr event, st')"
    from updateEvent_Inr[OF this] assms
    show "Event.ID event = Event.ID old \<and> Event.Status event = Event.Status old
            \<and> Event.CreatedAt event = Event.CreatedAt old \<and> Event.UpdatedAt event = now
            \<and> events st' = (events st)(eventID \<mapsto> event)
            \<and> timeSlots st' = timeSlots st \<and> userAvailability st' = userAvailability st"
      by auto
  qed
  show "\<forall>req. b = Decoded req \<and> CreateEventRequest.Title req \<noteq> []
            \<and> CreateEventRequest.OrganizerID req \<noteq> []
            \<and> CreateEventRequest.RequiredDuration req \<noteq> 0 \<longrightarrow>
          (\<exists>event st'. updateEvent st eventID b now = (Inr event, st')
             \<and> Event.Title event = CreateEventRequest.Title req
             \<and> Event.Description event = CreateEventRequest.Description req
             \<and> Event.OrganizerID event = CreateEventRequest.OrganizerID req
             \<and> Event.RequiredDuration event = CreateEventRequest.RequiredDuration req)"
    using assms by (simp add: updateEvent_def bindCreateEventRequest_def Let_def)
qed

text \<open>
  The witness: an active event gets a new title, description, organizer and duration;
  identifier and status stay.
\<close>

theorem C8_witness:
  "events storeNoRespondents ''e1'' = Some event1
   \<and> fst (updateEvent storeNoRespondents ''e1'' (Decoded requestRetitle) 7) =
       Inr \<lparr>Event.ID = ''e1'', Title = ''Planning'', Description = ''moved'',
            OrganizerID = ''org2'', RequiredDuration = 30, Status = ''active'',
            CreatedAt = 0, UpdatedAt = 7\<rparr>
   \<and> Event.ID event1 = ''e1'' \<and> Event.Status event1 = ''active''"
proof -
  have e: "events storeNoRespondents ''e1'' = Some event1"
    by (simp add: storeNoRespondents_def)
  have "fst (updateEvent storeNoRespondents ''e1'' (Decoded requestRetitle) 7) =
       Inr \<lparr>Event.ID = ''e1'', Title = ''Planning'', Description = ''moved'',
            OrganizerID = ''org2'', RequiredDuration = 30, Status = ''active'',
            CreatedAt = 0, UpdatedAt = 7\<rparr>"
    using C8_update_keeps_identifier_and_status[OF e, of "Decoded requestRetitle" 7]
    by (simp add: updateEvent_def bindCreateEventRequest_def Let_def requestRetitle_def
          storeNoRespondents_def event1_def)
  with e show ?thesis by (simp add: event1_def)
qed

text \<open>
  The counterexample to C8 as stated: no request body and no time make an update of the
  active event \<open>e1\<close> answer with an event of another status.
\<close>

theorem C8_counterexample:
  "\<not> (\<exists>b now event st'.
        updateEvent storeNoRespondents ''e1'' b now = (Inr event, st')
        \<and> Event.Status event \<noteq> ''active'')"
proof
  assume "\<exists>b now event st'.
        updateEvent storeNoRespondents ''e1'' b now = (Inr event, st')
        \<and> Event.Status event \<noteq> ''active''"
  then obtain b now event st' where
    u: "updateEvent storeNoRespondents ''e1'' b now = (Inr event, st')"
    and s: "Event.Status event \<noteq> ''active''"
    by blast
  from updateEvent_Inr[OF u] have "Event.Status event = ''active''"
    by (auto simp: storeNoRespondents_def event1_def)
  with s show False by simp
qed

text \<open>
  C9. A successful createUserAvailability with a fresh identifier adds one record under
  that identifier and keeps every record the store had, unchanged; the records for the
  same (user, event, slot) are the old ones and the new one, so nothing is replaced and
  no upsert on (user, slot) takes place.
\<close>

theorem C9_create_inserts_and_never_replaces:
  assumes "createUserAvailability st eventID userID b newID now = (Inr a, st')"
    and "userAvailability st newID = None"
  shows "UserAvailability.ID a = newID
    \<and> userAvailability st' = (userAvailability st)(newID \<mapsto> a)
    \<and> dom (userAvailability st') = insert newID (dom (userAvailability st))
    \<and> (\<forall>k old. userAvailability st k = Some old \<longrightarrow> userAvailability st' k = Some old)
    \<and> newID \<notin> recordsFor st eventID userID (UserAvailability.TimeSlotID a)
    \<and> recordsFor st' eventID userID (UserAvailability.TimeSlotID a)
        = insert newID (recordsFor st eventID userID (UserAvailability.TimeSlotID a))
    \<and> events st' = events st \<and> timeSlots st' = timeSlots st"
proof -
  from createUserAvailability_Inr[OF assms(1)] obtain req :: UserAvailabilityRequest where
    a: "a = \<lparr>UserAvailability.ID = newID, UserID = userID, EventID = eventID,
             TimeSlotID = UserAvailabilityRequest.TimeSlotID req,
             Status = UserAvailabilityRequest.Status req,
             CreatedAt = now, UpdatedAt = now\<rparr>"
    and st': "st' = st\<lparr>userAvailability := (userAvailability st)(newID \<mapsto> a)\<rparr>"
    by blast
  have 1: "UserAvailability.ID a = newID" by (simp add: a)
  have 2: "userAvailability st' = (userAvailability st)(newID \<mapsto> a)" by (simp add: st')
  have 3: "dom (userAvailability st') = insert newID (dom (userAvailability st))"
    by (simp add: 2)
  have 4: "\<forall>k old. userAvailability st k = Some old \<longrightarrow> userAvailability st' k = Some old"
    using assms(2) by (auto simp: 2)
  have 5: "newID \<notin> recordsFor st eventID userID (UserAvailability.TimeSlotID a)"
    using assms(2) by (simp add: recordsFor_def)
  have 6: "recordsFor st' eventID userID (UserAvailability.TimeSlotID a)
        = insert newID (recordsFor st eventID userID (UserAvailability.TimeSlotID a))"
    using assms(2) unfolding recordsFor_def 2 by (auto simp: a)
  have 7: "events st' = events st \<and> timeSlots st' = timeSlots st" by (simp add: st')
  from 1 2 3 4 5 6 7 show ?thesis by blast
qed

text \<open>
  The witness: the store already holds two records of \<open>u1\<close> for slot \<open>a\<close> of \<open>e1\<close>; a
  third create for the same user and slot leaves three.
\<close>

theorem C9_witness:
  "userAvailability storeDup ''d3'' = None
   \<and> recordsFor storeDup ''e1'' ''u1'' ''a'' = {''d1'', ''d2''}
   \<and> fst (createUserAvailability storeDup ''e1'' ''u1'' (Decoded requestA) ''d3'' 300) =
       Inr \<lparr>UserAvailability.ID = ''d3'', UserID = ''u1'', EventID = ''e1'',
             TimeSlotID = ''a'', Status = ''available'', CreatedAt = 300, UpdatedAt = 300\<rparr>
   \<and> recordsFor (snd (createUserAvailability storeDup ''e1'' ''u1'' (Decoded requestA) ''d3'' 300))
        ''e1'' ''u1'' ''a'' = {''d3'', ''d1'', ''d2''}"
proof -
  let ?a = "\<lparr>UserAvailability.ID = ''d3'', UserID = ''u1'', EventID = ''e1'',
             TimeSlotID = ''a'', Status = ''available'', CreatedAt = 300, UpdatedAt = 300\<rparr>"
  let ?st' = "storeDup\<lparr>userAvailability := (userAvailability storeDup)(''d3'' \<mapsto> ?a)\<rparr>"
  have n: "userAvailability storeDup ''d3'' = None"
    by (simp add: storeDup_def dupRecords_def)
  have r: "recordsFor storeDup ''e1'' ''u1'' ''a'' = {''d1'', ''d2''}"
    by (auto simp: recordsFor_def storeDup_def dupRecords_def split: if_splits)
  have c: "createUserAvailability storeDup ''e1'' ''u1'' (Decoded requestA) ''d3'' 300 = (Inr ?a, ?st')"
    by (simp add: createUserAvailability_def bindUserAvailabilityRequest_def Let_def
          requestA_def storeDup_def)
  have "recordsFor ?st' ''e1'' ''u1'' ''a'' = insert ''d3'' (recordsFor storeDup ''e1'' ''u1'' ''a'')"
    using C9_create_inserts_and_never_replaces[OF c n] by simp
  with n r c show ?thesis by simp
qed

text \<open>
  C10, as amended. createUserAvailability succeeds whenever the event of the path exists,
  the body binds (a non-empty slot identifier and a status that is \<open>available\<close> or
  \<open>unavailable\<close>) and a slot with the given identifier exists in the store, whatever
  event that slot belongs to; the record binds the user to the event of the path, and
  the user is then one of the known users of that event, counted in its divisor.
\<close>

theorem C10_slot_of_another_event_is_accepted:
  assumes "events st eventID = Some event"
    and "timeSlots st (UserAvailabilityRequest.TimeSlotID req) = Some slot"
    and "UserAvailabilityRequest.TimeSlotID req \<noteq> []"
    and "UserAvailabilityRequest.Status req = ''available''
         \<or> UserAvailabilityRequest.Status req = ''unavailable''"
  shows "\<exists>a st'. createUserAvailability st eventID userID (Decoded req) newID now = (Inr a, st')
    \<and> UserAvailability.EventID a = eventID \<and> UserAvailability.UserID a = userID
    \<and> UserAvailability.TimeSlotID a = UserAvailabilityRequest.TimeSlotID req
    \<and> userAvailability st' newID = Some a
    \<and> userID \<in> knownUsers st' eventID
    \<and> (\<forall>availOrder. ranges (userAvailability st') availOrder \<longrightarrow>
          userID \<in> collectUsers eventID (map snd availOrder) {})"
proof -
  let ?a = "\<lparr>UserAvailability.ID = newID, UserID = userID, EventID = eventID,
             TimeSlotID = UserAvailabilityRequest.TimeSlotID req,
             Status = UserAvailabilityRequest.Status req,
             CreatedAt = now, UpdatedAt = now\<rparr>"
  let ?st' = "st\<lparr>userAvailability := (userAvailability st)(newID \<mapsto> ?a)\<rparr>"
  have c: "createUserAvailability st eventID userID (Decoded req) newID now = (Inr ?a, ?st')"
    using assms
    by (auto simp: createUserAvailability_def bindUserAvailabilityRequest_def Let_def)
  have "userAvailability ?st' newID = Some ?a" by simp
  then have "?a \<in> ran (userAvailability ?st')" by (rule ranI)
  then have k: "userID \<in> knownUsers ?st' eventID"
    unfolding knownUsers_def by force
  have "\<forall>availOrder. ranges (userAvailability ?st') availOrder \<longrightarrow>
          userID \<in> collectUsers eventID (map snd availOrder) {}"
    using k by (simp add: collectUsers_ranges knownUsers_def)
  with c k show ?thesis by simp
qed

text \<open>
  The witness: the only slot of the store belongs to event \<open>e2\<close>; a record for event
  \<open>e1\<close> on that slot is created and \<open>u9\<close> becomes a known user of \<open>e1\<close>.
\<close>

theorem C10_witness:
  "events storeForeign ''e1'' = Some event1
   \<and> timeSlots storeForeign (UserAvailabilityRequest.TimeSlotID requestZ) = Some slotZ
   \<and> TimeSlot.EventID slotZ = ''e2''
   \<and> fst (createUserAvailability storeForeign ''e1'' ''u9'' (Decoded requestZ) ''n1'' 5) =
       Inr \<lparr>UserAvailability.ID = ''n1'', UserID = ''u9'', EventID = ''e1'',
             TimeSlotID = ''z'', Status = ''available'', CreatedAt = 5, UpdatedAt = 5\<rparr>
   \<and> ''u9'' \<in> knownUsers
        (snd (createUserAvailability storeForeign ''e1'' ''u9'' (Decoded requestZ) ''n1'' 5)) ''e1''"
proof -
  have e: "events storeForeign ''e1'' = Some event1"
    by (simp add: storeForeign_def)
  have s: "timeSlots storeForeign (UserAvailabilityRequest.TimeSlotID requestZ) = Some slotZ"
    by (simp add: storeForeign_def requestZ_def)
  have z: "TimeSlot.EventID slotZ = ''e2''"
    by (simp add: slotZ_def)
  have t: "UserAvailabilityRequest.TimeSlotID requestZ \<noteq> []"
    and v: "UserAvailabilityRequest.Status requestZ = ''available''
         \<or> UserAvailabilityRequest.Status requestZ = ''unavailable''"
    by (simp_all add: requestZ_def)
  from C10_slot_of_another_event_is_accepted[OF e s t v, of "''u9''" "''n1''" 5]
  obtain a st' where
    c: "createUserAvailability storeForeign ''e1'' ''u9'' (Decoded requestZ) ''n1'' 5 = (Inr a, st')"
    and k: "''u9'' \<in> knownUsers st' ''e1''"
    by blast
  have "fst (createUserAvailability storeForeign ''e1'' ''u9'' (Decoded requestZ) ''n1'' 5) =
       Inr \<lparr>UserAvailability.ID = ''n1'', UserID = ''u9'', EventID = ''e1'',
             TimeSlotID = ''z'', Status = ''available'', CreatedAt = 5, UpdatedAt = 5\<rparr>"
    by (simp add: createUserAvailability_def bindUserAvailabilityRequest_def Let_def
          requestZ_def storeForeign_def)
  with e s z c k show ?thesis by simp
qed

text \<open>
  The counterexample to C10 as stated: the event and the slot exist, the status of the
  body is \<open>maybe\<close>, and the handler answers 400 and stores nothing.
\<close>

theorem C10_counterexample:
  "events storeForeign ''e1'' = Some event1
   \<and> timeSlots storeForeign (UserAvailabilityRequest.TimeSlotID requestMaybe) = Some slotZ
   \<and> createUserAvailability storeForeign ''e1'' ''u9'' (Decoded requestMaybe) ''n1'' 5
       = (Inl BadRequest, storeForeign)"
  by (simp add: createUserAvailability_def bindUserAvailabilityRequest_def requestMaybe_def
        storeForeign_def)

end
